theory Spec2Isabelle
  imports Complex_Main "HOL-Library.Multiset" "HOL-Library.Log_Nat" "HOL-Library.Sublist"
begin

section \<open>Data model\<close>

text \<open>
  A JavaScript string is a sequence of UTF-16 code units; a code unit is modelled by its
  number. \<open>lit\<close> turns an ASCII literal of the source into such a sequence.
  A \<open>Date\<close> is modelled by its time value (milliseconds since the epoch, what
  \<open>getTime()\<close> returns); invalid dates are not modelled.
\<close>

type_synonym jsstring = "nat list"

definition lit :: "string \<Rightarrow> jsstring" where
  "lit s = map of_char s"

type_synonym date = int

text \<open>
  Modelled from the spec: the types \<open>TaskStatus\<close>, \<open>Task\<close> and its subtasks and
  links, which the components import from a module that is not among the sources. The
  fields are the ones of the specification's data model, under the names the components
  read them by (\<open>id\<close> and \<open>title\<close> are prefixed, \<open>notes\<close> is
  \<open>task_notes\<close>, the \<open>value\<close> of a link is \<open>url_value\<close>). Optional properties
  (\<open>completedAt\<close>, \<open>dueDate\<close>, \<open>notes\<close>, and the arrays that the components
  guard with \<open>task.subtasks && ...\<close> and \<open>task.urls && ...\<close>) are options,
  \<open>None\<close> standing for \<open>undefined\<close>.
\<close>

datatype TaskStatus = Current | Completed | Pending

record Subtask =
  subtask_id :: jsstring
  subtask_title :: jsstring
  completed :: bool

record Url =
  url_id :: jsstring
  url_value :: jsstring

record Task =
  task_id :: jsstring
  title :: jsstring
  status :: TaskStatus
  createdAt :: date
  completedAt :: "date option"
  dueDate :: "date option"
  task_notes :: "jsstring option"
  urls :: "Url list option"
  subtasks :: "Subtask list option"

section \<open>Daily summary dialog: completion calculator\<close>

text \<open>The guard \<open>task.subtasks && task.subtasks.length > 0\<close>.\<close>

definition subtasksNonEmpty :: "Task \<Rightarrow> bool" where
  "subtasksNonEmpty t = (case subtasks t of None \<Rightarrow> False | Some sts \<Rightarrow> length sts > 0)"

text \<open>The callback of the filter that builds \<open>completedTasksList\<close>.\<close>

definition completedTasksCallback :: "Task \<Rightarrow> bool" where
  "completedTasksCallback t =
     (case subtasks t of
        Some sts \<Rightarrow> if length sts > 0 then list_all completed sts else status t = Completed
      | None \<Rightarrow> status t = Completed)"

definition completedTasksList :: "Task list \<Rightarrow> Task list" where
  "completedTasksList tasks = filter completedTasksCallback tasks"

definition incompleteTasksList :: "Task list \<Rightarrow> Task list" where
  "incompleteTasksList tasks =
     filter (\<lambda>t. \<not> list_ex (\<lambda>ct. task_id ct = task_id t) (completedTasksList tasks)) tasks"






definition completionStep :: "nat \<times> nat \<Rightarrow> Task \<Rightarrow> nat \<times> nat" where
  "completionStep acc task =
     (case acc of (items, fin) \<Rightarrow>
        (if subtasksNonEmpty task then
           (case subtasks task of
              Some sts \<Rightarrow> (items + length sts, fin + length (filter completed sts))
            | None \<Rightarrow> (items, fin))
         else (items + 1, if status task = Completed then fin + 1 else fin)))"

definition itemsForCompletion :: "Task list \<Rightarrow> nat" where
  "itemsForCompletion tasks = fst (foldl completionStep (0, 0) tasks)"

definition completedItemsForCompletion :: "Task list \<Rightarrow> nat" where
  "completedItemsForCompletion tasks = snd (foldl completionStep (0, 0) tasks)"

subsection \<open>Numbers\<close>

text \<open>
  A JavaScript number is an IEEE 754 double. A finite double is a rational number, and
  the result of an arithmetic operation is the double nearest to the exact result, ties
  going to the double with the even significand. \<open>fround x\<close> is that double: 53
  significant bits above \<open>2 powi - 1022\<close>, multiples of \<open>2 powi - 1074\<close> below.
  Overflow (a result of \<open>2 ^ 1024\<close> and more) is not modelled; the quotients of the
  report are at most 1 and the rates at most 100. The counters are natural numbers: a
  group that fits in memory has fewer than \<open>2 ^ 53\<close> completion units, and up to there
  the additions of the loops are exact.
\<close>

text \<open>For \<open>x > 0\<close>, the exponent \<open>e\<close> with \<open>2 powi e \<le> x < 2 powi (e + 1)\<close>.\<close>

definition floorLog2 :: "rat \<Rightarrow> int" where
  "floorLog2 x =
     (case quotient_of x of
        (p, q) \<Rightarrow> let d = bitlen p - bitlen q in if 2 powi d \<le> x then d else d - 1)"

definition roundHalfEven :: "rat \<Rightarrow> int" where
  "roundHalfEven m =
     (let f = \<lfloor>m\<rfloor>; r = m - of_int f
      in if r < 1 / 2 then f else if 1 / 2 < r then f + 1 else if even f then f else f + 1)"

definition fround :: "rat \<Rightarrow> rat" where
  "fround x =
     (if x = 0 then 0
      else let e = max (floorLog2 \<bar>x\<bar>) (- 1022); u = 2 powi (e - 52)
           in sgn x * of_int (roundHalfEven (\<bar>x\<bar> / u)) * u)"

definition fdiv :: "rat \<Rightarrow> rat \<Rightarrow> rat" where
  "fdiv a b = fround (a / b)"

definition fmul :: "rat \<Rightarrow> rat \<Rightarrow> rat" where
  "fmul a b = fround (a * b)"

text \<open>\<open>(completedItemsForCompletion / itemsForCompletion) * 100\<close>\<close>

definition completionRate :: "Task list \<Rightarrow> rat" where
  "completionRate tasks =
     (if itemsForCompletion tasks > 0
      then fmul (fdiv (of_nat (completedItemsForCompletion tasks))
                      (of_nat (itemsForCompletion tasks))) 100
      else 0)"

section \<open>Task item: the checkbox handlers\<close>

text \<open>
  The object of partial updates a handler passes to \<open>onUpdate\<close>, with the three keys
  the checkbox handlers write. A key the handler leaves out is \<open>None\<close>; a key it sets
  carries the value, which may be \<open>undefined\<close> (the inner \<open>None\<close>).
  \<open>new Date()\<close> is the argument \<open>now\<close>.
\<close>

record TaskUpdates =
  upd_status :: "TaskStatus option"
  upd_completedAt :: "date option option"
  upd_subtasks :: "Subtask list option option"

definition handleCheck :: "date \<Rightarrow> Task \<Rightarrow> bool \<Rightarrow> TaskUpdates" where
  "handleCheck now task checked =
     (let newStatus = (if checked then Completed else Current);
          updates = \<lparr>upd_status = Some newStatus,
                     upd_completedAt = Some (if checked then Some now else None),
                     upd_subtasks = None\<rparr>
      in case subtasks task of
           Some sts \<Rightarrow>
             if length sts > 0
             then updates\<lparr>upd_subtasks := Some (Some (map (\<lambda>st. st\<lparr>completed := checked\<rparr>) sts))\<rparr>
             else updates
         | None \<Rightarrow> updates)"

definition handleSubtaskCheck :: "date \<Rightarrow> Task \<Rightarrow> jsstring \<Rightarrow> bool \<Rightarrow> TaskUpdates" where
  "handleSubtaskCheck now task subtaskId checked =
     (let updatedSubtasks =
            map_option
              (map (\<lambda>subtask. if subtask_id subtask = subtaskId
                              then subtask\<lparr>completed := checked\<rparr> else subtask))
              (subtasks task);
          allSubtasksCompleted = map_option (list_all completed) updatedSubtasks;
          updates = \<lparr>upd_status = None, upd_completedAt = None,
                     upd_subtasks = Some updatedSubtasks\<rparr>
      in if subtasksNonEmpty task
         then (if allSubtasksCompleted = Some True
               then updates\<lparr>upd_status := Some Completed, upd_completedAt := Some (Some now)\<rparr>
               else updates\<lparr>upd_status := Some Current, upd_completedAt := Some None\<rparr>)
         else updates)"

text \<open>
  Modelled from the spec: the task store's \<open>update(taskId, partialFields)\<close>, whose code
  is not among the sources. It merges the partial fields into the task: a key of the
  update replaces the task's field, any other field is kept.
\<close>

definition applyUpdates :: "Task \<Rightarrow> TaskUpdates \<Rightarrow> Task" where
  "applyUpdates t u =
     t\<lparr>status := (case upd_status u of None \<Rightarrow> status t | Some s \<Rightarrow> s),
       completedAt := (case upd_completedAt u of None \<Rightarrow> completedAt t | Some c \<Rightarrow> c),
       subtasks := (case upd_subtasks u of None \<Rightarrow> subtasks t | Some s \<Rightarrow> s)\<rparr>"

section \<open>Task list: filtering, sorting and grouping\<close>

text \<open>
  The date library and the \<open>Date\<close> constructor are consumed by the component, not
  part of it. They are parameters of the model:
  \<^item> \<open>isToday d\<close>: date-fns \<open>isToday\<close>, whether \<open>d\<close> falls on the current calendar day;
  \<^item> \<open>format d\<close>: date-fns \<open>format(d, 'yyyy-MM-dd')\<close>, the date key of \<open>d\<close>;
  \<^item> \<open>parse s\<close>: \<open>new Date(s).getTime()\<close>, \<open>None\<close> standing for \<open>NaN\<close>.
  A \<open>Date\<close> object is truthy, so \<open>task.completedAt && ...\<close> tests that the property
  is there.
\<close>

definition filteredTasks :: "(date \<Rightarrow> bool) \<Rightarrow> TaskStatus \<Rightarrow> Task list \<Rightarrow> Task list" where
  "filteredTasks isToday activeTab tasks =
     filter (\<lambda>task.
       if activeTab = Current then
         (status task = Current \<or>
          (status task = Completed \<and>
           (case completedAt task of None \<Rightarrow> False | Some d \<Rightarrow> isToday d)))
       else if activeTab = Completed then
         (status task = Completed \<and>
          (case completedAt task of None \<Rightarrow> False | Some d \<Rightarrow> \<not> isToday d))
       else if activeTab = Pending then status task = Pending
       else False) tasks"

definition getCount :: "(date \<Rightarrow> bool) \<Rightarrow> Task list \<Rightarrow> TaskStatus \<Rightarrow> nat" where
  "getCount isToday tasks st =
     (if st = Current then
        length (filter (\<lambda>t. status t = Current \<or>
          (status t = Completed \<and>
           (case completedAt t of None \<Rightarrow> False | Some d \<Rightarrow> isToday d))) tasks)
      else if st = Completed then
        length (filter (\<lambda>t. status t = Completed \<and>
          (case completedAt t of None \<Rightarrow> False | Some d \<Rightarrow> \<not> isToday d)) tasks)
      else length (filter (\<lambda>t. status t = st) tasks))"

subsection \<open>Array.prototype.sort\<close>

text \<open>
  \<open>sort\<close> with a comparator: an element \<open>x\<close> goes before \<open>y\<close> when the comparator
  does not return a positive number for \<open>(x, y)\<close>. For a consistent comparator the
  language fixes the result (the stable sorted permutation), whatever algorithm the
  engine runs; the model is the stable insertion sort. A comparator's \<open>NaN\<close> counts as
  0.
\<close>

fun insertBy :: "('a \<Rightarrow> 'a \<Rightarrow> int) \<Rightarrow> 'a \<Rightarrow> 'a list \<Rightarrow> 'a list" where
  "insertBy cmp x [] = [x]"
| "insertBy cmp x (y # ys) =
     (if cmp x y \<le> 0 then x # y # ys else y # insertBy cmp x ys)"

definition sortBy :: "('a \<Rightarrow> 'a \<Rightarrow> int) \<Rightarrow> 'a list \<Rightarrow> 'a list" where
  "sortBy cmp xs = foldr (insertBy cmp) xs []"

subsection \<open>sortTasks\<close>

text \<open>\<open>t.completedAt?.getTime() || 0\<close>: 0 for a missing date (and for the time value 0,
  which is falsy).\<close>

definition completedTime :: "Task \<Rightarrow> int" where
  "completedTime t = (case completedAt t of None \<Rightarrow> 0 | Some d \<Rightarrow> d)"

definition compareTasks :: "TaskStatus \<Rightarrow> Task \<Rightarrow> Task \<Rightarrow> int" where
  "compareTasks activeTab a b =
     (if activeTab = Completed then completedTime b - completedTime a
      else (case (dueDate a, dueDate b) of
              (Some da, Some db) \<Rightarrow> da - db
            | (Some da, None) \<Rightarrow> - 1
            | (None, Some db) \<Rightarrow> 1
            | (None, None) \<Rightarrow> createdAt b - createdAt a))"

definition sortTasks :: "TaskStatus \<Rightarrow> Task list \<Rightarrow> Task list" where
  "sortTasks activeTab tasksToSort = sortBy (compareTasks activeTab) tasksToSort"

subsection \<open>renderTaskList: groups by date key\<close>

definition noDate :: jsstring where
  "noDate = lit ''No Date''"

text \<open>
  The object \<open>groupedTasks\<close> is an association list in the order in which its keys were
  created, which is the order \<open>Object.keys\<close> lists them in (date keys are not array
  indices). \<open>pushTask\<close> is the body of the reducer after the key is computed: create
  the empty group when the key is new, then push the task.
\<close>

fun pushTask :: "(jsstring \<times> Task list) list \<Rightarrow> jsstring \<Rightarrow> Task \<Rightarrow> (jsstring \<times> Task list) list" where
  "pushTask [] dateKey task = [(dateKey, [task])]"
| "pushTask ((k, ts) # acc) dateKey task =
     (if k = dateKey then (k, ts @ [task]) # acc else (k, ts) # pushTask acc dateKey task)"

definition dateKeySource :: "TaskStatus \<Rightarrow> Task \<Rightarrow> date option" where
  "dateKeySource activeTab task = (if activeTab = Completed then completedAt task else dueDate task)"

definition dateKeyOf :: "(date \<Rightarrow> jsstring) \<Rightarrow> TaskStatus \<Rightarrow> Task \<Rightarrow> jsstring" where
  "dateKeyOf format activeTab task =
     (case dateKeySource activeTab task of Some d \<Rightarrow> format d | None \<Rightarrow> noDate)"

definition groupedTasks ::
  "(date \<Rightarrow> jsstring) \<Rightarrow> TaskStatus \<Rightarrow> Task list \<Rightarrow> (jsstring \<times> Task list) list" where
  "groupedTasks format activeTab tasksToRender =
     foldl (\<lambda>acc task. pushTask acc (dateKeyOf format activeTab task) task) [] tasksToRender"

text \<open>The comparator of the group keys; a difference with \<open>NaN\<close> in it is \<open>NaN\<close>.\<close>

definition compareKeys :: "(jsstring \<Rightarrow> int option) \<Rightarrow> jsstring \<Rightarrow> jsstring \<Rightarrow> int" where
  "compareKeys parse a b =
     (if a = noDate then 1
      else if b = noDate then - 1
      else (case (parse b, parse a) of
              (Some tb, Some ta) \<Rightarrow> tb - ta
            | _ \<Rightarrow> 0))"

definition sortedGroupKeys ::
  "(jsstring \<Rightarrow> int option) \<Rightarrow> (jsstring \<times> Task list) list \<Rightarrow> jsstring list" where
  "sortedGroupKeys parse grouped = sortBy (compareKeys parse) (map fst grouped)"

text \<open>\<open>groupedTasks[dateKey]\<close>; every key of \<open>sortedGroupKeys\<close> has its group.\<close>

definition groupTasks :: "(jsstring \<times> Task list) list \<Rightarrow> jsstring \<Rightarrow> Task list" where
  "groupTasks grouped dateKey = (case map_of grouped dateKey of Some ts \<Rightarrow> ts | None \<Rightarrow> [])"

text \<open>
  What \<open>renderTaskList\<close> lays out: one section per key of \<open>sortedGroupKeys\<close>, with the
  group's tasks sorted by \<open>sortTasks\<close>. (For an empty list it shows a placeholder and no
  section.)
\<close>

definition renderTaskList ::
  "(date \<Rightarrow> jsstring) \<Rightarrow> (jsstring \<Rightarrow> int option) \<Rightarrow> TaskStatus \<Rightarrow> Task list
     \<Rightarrow> (jsstring \<times> Task list) list" where
  "renderTaskList format parse activeTab tasksToRender =
     (if length tasksToRender = 0 then []
      else let grouped = groupedTasks format activeTab tasksToRender
           in map (\<lambda>dateKey. (dateKey, sortTasks activeTab (groupTasks grouped dateKey)))
                (sortedGroupKeys parse grouped))"

section \<open>Daily summary dialog: the report and its export\<close>

subsection \<open>Strings\<close>

text \<open>A number in a template literal: the decimal digits of a natural number.\<close>

fun showNat :: "nat \<Rightarrow> jsstring" where
  "showNat n = (if n < 10 then [48 + n] else showNat (n div 10) @ [48 + n mod 10])"

declare showNat.simps [simp del]

text \<open>
  \<open>toFixed(0)\<close> of a number that is not negative: the nearest integer, the larger one
  of two that are equally near.
\<close>

definition toFixed0 :: "rat \<Rightarrow> jsstring" where
  "toFixed0 x = showNat (nat \<lfloor>x + 1 / 2\<rfloor>)"



text \<open>
  The character class \<open>[\s,]\<close>: the white space and line terminators of the language,
  and the comma.
\<close>

definition isSeparator :: "nat \<Rightarrow> bool" where
  "isSeparator c =
     (c \<in> {9, 10, 11, 12, 13, 32, 160, 5760, 8232, 8233, 8239, 8287, 12288, 65279}
      \<or> (8192 \<le> c \<and> c \<le> 8202) \<or> c = 44)"

text \<open>
  \<open>s.replace(/[\s,]+/g, '-')\<close>: scanning from the left, the longest run of separators
  at a position becomes one hyphen; any other character is kept.
\<close>

function replaceSeparators :: "jsstring \<Rightarrow> jsstring" where
  "replaceSeparators [] = []"
| "replaceSeparators (c # cs) =
     (if isSeparator c then 45 # replaceSeparators (dropWhile isSeparator cs)
      else c # replaceSeparators cs)"
  by pat_completeness auto
termination
  by (relation "measure length") (auto simp: length_dropWhile_le less_Suc_eq_le)

subsection \<open>The title and the file name\<close>

text \<open>
  \<open>formatLong k\<close> stands for \<open>format(date, 'MMMM d, yyyy')\<close> of the date that the key
  \<open>k\<close> is split into; the date library is a parameter. A string is truthy when it is
  there and not empty.
\<close>

definition truthy :: "jsstring option \<Rightarrow> bool" where
  "truthy s = (case s of None \<Rightarrow> False | Some v \<Rightarrow> v \<noteq> [])"

definition getReportTitle :: "(jsstring \<Rightarrow> jsstring) \<Rightarrow> jsstring \<Rightarrow> jsstring option \<Rightarrow> jsstring" where
  "getReportTitle formatLong formattedDate dateKey =
     (case dateKey of
        Some k \<Rightarrow>
          if formattedDate = lit ''Today'' \<and> k \<noteq> []
          then lit ''End of Day Report: Today - '' @ formatLong k
          else lit ''End of Day Report: '' @ formattedDate
      | None \<Rightarrow> lit ''End of Day Report: '' @ formattedDate)"

text \<open>The argument of \<open>pdf.save\<close> in \<open>handleDownloadPdf\<close>.\<close>

definition pdfFileName :: "jsstring option \<Rightarrow> jsstring \<Rightarrow> jsstring" where
  "pdfFileName dateKey formattedDate =
     lit ''KEPH-Report-''
     @ (if truthy dateKey then (case dateKey of Some k \<Rightarrow> k | None \<Rightarrow> [])
        else replaceSeparators formattedDate)
     @ lit ''.pdf''"

subsection \<open>The HTML report\<close>



subsection \<open>The plain-text report\<close>



section \<open>The specification's vocabulary for the completion calculator\<close>

text \<open>The subtask sequence of a task, an absent one read as empty.\<close>

definition subtaskList :: "Task \<Rightarrow> Subtask list" where
  "subtaskList t = (case subtasks t of None \<Rightarrow> [] | Some sts \<Rightarrow> sts)"

text \<open>
  The specification's "accomplished": one or more subtasks, all of them completed; or no
  subtasks and status completed.
\<close>

definition accomplished :: "Task \<Rightarrow> bool" where
  "accomplished t =
     ((subtaskList t \<noteq> [] \<and> list_all completed (subtaskList t))
      \<or> (subtaskList t = [] \<and> status t = Completed))"

text \<open>The completion units of a task: what it adds to the denominator and the numerator.\<close>

definition unitCount :: "Task \<Rightarrow> nat" where
  "unitCount t = max 1 (length (subtaskList t))"

definition unitsDone :: "Task \<Rightarrow> nat" where
  "unitsDone t =
     (if subtaskList t \<noteq> [] then length (filter completed (subtaskList t))
      else if status t = Completed then 1 else 0)"

section \<open>Example data\<close>

definition mkSubtask :: "string \<Rightarrow> string \<Rightarrow> bool \<Rightarrow> Subtask" where
  "mkSubtask i ttl c = \<lparr>subtask_id = lit i, subtask_title = lit ttl, completed = c\<rparr>"

definition mkTask :: "string \<Rightarrow> string \<Rightarrow> TaskStatus \<Rightarrow> Subtask list \<Rightarrow> Task" where
  "mkTask i ttl st sts =
     \<lparr>task_id = lit i, title = lit ttl, status = st, createdAt = 1717200000000,
      completedAt = None, dueDate = None, task_notes = None, urls = None, subtasks = Some sts\<rparr>"

text \<open>The group of the specification's example: A completed, B with one of two subtasks
  checked, C pending.\<close>

definition taskA :: Task where
  "taskA = mkTask ''a'' ''Task A'' Completed []"

definition taskB :: Task where
  "taskB = mkTask ''b'' ''Task B'' Current
     [mkSubtask ''b1'' ''first'' True, mkSubtask ''b2'' ''second'' False]"

definition taskC :: Task where
  "taskC = mkTask ''c'' ''Task C'' Pending []"

definition exampleGroup :: "Task list" where
  "exampleGroup = [taskA, taskB, taskC]"

text \<open>A group in which two tasks carry one id: the first is completed, the second and
  the third are pending.\<close>

definition sharedIdGroup :: "Task list" where
  "sharedIdGroup =
     [mkTask ''x'' ''First'' Completed [],
      mkTask ''x'' ''Second'' Pending [],
      mkTask ''y'' ''Third'' Pending []]"

text \<open>A task with twenty subtasks, eleven of them checked.\<close>

definition elevenOfTwenty :: "Task list" where
  "elevenOfTwenty =
     [mkTask ''r'' ''Review'' Current
        (replicate 11 (mkSubtask ''s'' ''checked'' True)
         @ replicate 9 (mkSubtask ''s'' ''open'' False))]"

text \<open>A task with forty subtasks, twenty-three of them checked.\<close>

definition twentyThreeOfForty :: "Task list" where
  "twentyThreeOfForty =
     [mkTask ''q'' ''Audit'' Current
        (replicate 23 (mkSubtask ''s'' ''checked'' True)
         @ replicate 17 (mkSubtask ''s'' ''open'' False))]"

section \<open>The specification's vocabulary for the checkbox handlers\<close>

text \<open>The subtask update of the primary checkbox: only the flag changes.\<close>

definition setAll :: "bool \<Rightarrow> Subtask list \<Rightarrow> Subtask list" where
  "setAll v sts = map (\<lambda>st. st\<lparr>completed := v\<rparr>) sts"

definition toggleOne :: "jsstring \<Rightarrow> bool \<Rightarrow> Subtask list \<Rightarrow> Subtask list" where
  "toggleOne sid v sts =
     map (\<lambda>st. if subtask_id st = sid then st\<lparr>completed := v\<rparr> else st) sts"

section \<open>The specification's vocabulary for the task list\<close>

text \<open>Tab membership, as the specification words it.\<close>

fun inTab :: "(date \<Rightarrow> bool) \<Rightarrow> TaskStatus \<Rightarrow> Task \<Rightarrow> bool" where
  "inTab isToday Current t =
     (status t = Current \<or>
      (status t = Completed \<and> (case completedAt t of Some d \<Rightarrow> isToday d | None \<Rightarrow> False)))"
| "inTab isToday Completed t =
     (status t = Completed \<and> (case completedAt t of Some d \<Rightarrow> \<not> isToday d | None \<Rightarrow> False))"
| "inTab isToday Pending t = (status t = Pending)"

text \<open>A calendar for the examples: UTC days, today being 2024-06-02.\<close>

definition msPerDay :: int where
  "msPerDay = 86400000"

definition utcDay :: "date \<Rightarrow> int" where
  "utcDay d = d div msPerDay"

definition exampleIsToday :: "date \<Rightarrow> bool" where
  "exampleIsToday d = (utcDay d = 19876)"

text \<open>The collection of the specification's example: two current tasks, one completed
  today, one completed yesterday, one pending.\<close>

definition mkDated :: "string \<Rightarrow> TaskStatus \<Rightarrow> date option \<Rightarrow> date option \<Rightarrow> Task" where
  "mkDated i st done due = (mkTask i i st [])\<lparr>completedAt := done, dueDate := due\<rparr>"

definition exampleCollection :: "Task list" where
  "exampleCollection =
     [mkDated ''c1'' Current None (Some 1717286400000),
      mkDated ''c2'' Current None None,
      mkDated ''d1'' Completed (Some 1717318800000) None,
      mkDated ''d2'' Completed (Some 1717232400000) (Some 1717200000000),
      mkDated ''p1'' Pending None None]"

text \<open>A task marked completed with no completion date.\<close>

definition undatedCompleted :: Task where
  "undatedCompleted = mkDated ''u1'' Completed None None"

text \<open>
  The order within a group, as the specification words it. In the completed tab: by
  completedAt descending, a missing timestamp being the earliest. In the other tabs: dated
  tasks first, by due date ascending; undated tasks by createdAt descending.
  \<open>completedOrder a b\<close> and \<open>dueOrder a b\<close> say that \<open>a\<close> may stand before \<open>b\<close>.
\<close>

definition completedOrder :: "Task \<Rightarrow> Task \<Rightarrow> bool" where
  "completedOrder a b =
     (case completedAt b of
        None \<Rightarrow> True
      | Some tb \<Rightarrow> (case completedAt a of None \<Rightarrow> False | Some ta \<Rightarrow> tb \<le> ta))"

definition dueOrder :: "Task \<Rightarrow> Task \<Rightarrow> bool" where
  "dueOrder a b =
     (case dueDate a of
        Some da \<Rightarrow> (case dueDate b of Some db \<Rightarrow> da \<le> db | None \<Rightarrow> True)
      | None \<Rightarrow> (case dueDate b of Some db \<Rightarrow> False | None \<Rightarrow> createdAt b \<le> createdAt a))"

definition hasCompletedAt :: "Task \<Rightarrow> bool" where
  "hasCompletedAt t = (completedAt t \<noteq> None)"

definition completedAfterEpoch :: "Task \<Rightarrow> bool" where
  "completedAfterEpoch t = (case completedAt t of None \<Rightarrow> True | Some d \<Rightarrow> 0 < d)"

text \<open>
  The order of the sections, as the specification words it: the sentinel last, the other
  keys by the day they denote, most recent first. \<open>keyOrder parse a b\<close> says that key
  \<open>a\<close> may stand before key \<open>b\<close>.
\<close>

definition keyOrder :: "(jsstring \<Rightarrow> int option) \<Rightarrow> jsstring \<Rightarrow> jsstring \<Rightarrow> bool" where
  "keyOrder parse a b =
     (b = noDate \<or>
      (a \<noteq> noDate \<and>
       (case parse a of
          Some ta \<Rightarrow> (case parse b of Some tb \<Rightarrow> tb \<le> ta | None \<Rightarrow> False)
        | None \<Rightarrow> False)))"

definition validKey :: "(jsstring \<Rightarrow> int option) \<Rightarrow> jsstring \<Rightarrow> bool" where
  "validKey parse k = (k = noDate \<or> parse k \<noteq> None)"

text \<open>
  The date that a task is grouped by, as the specification words it: completedAt in the
  completed tab, dueDate in the other tabs. Its key is the date key of that date, and the
  sentinel when the date is missing.
\<close>

fun groupingDate :: "TaskStatus \<Rightarrow> Task \<Rightarrow> date option" where
  "groupingDate Completed t = completedAt t"
| "groupingDate Current t = dueDate t"
| "groupingDate Pending t = dueDate t"

definition groupingKey :: "(date \<Rightarrow> jsstring) \<Rightarrow> TaskStatus \<Rightarrow> Task \<Rightarrow> jsstring" where
  "groupingKey format tab t = (case groupingDate tab t of None \<Rightarrow> noDate | Some d \<Rightarrow> format d)"

text \<open>
  Calendar days. \<open>day d\<close> is the number of the calendar day that the date \<open>d\<close> falls on
  (in the user's time zone). A task is grouped by the day of its grouping date;
  \<open>None\<close> is "no date". The contract of the date library on the dates at hand:
  the key of a date is not the sentinel, \<open>Date\<close> reads the key as midnight UTC of the
  date's calendar day, and two dates of one calendar day have one key.
\<close>

definition taskDay :: "(date \<Rightarrow> int) \<Rightarrow> TaskStatus \<Rightarrow> Task \<Rightarrow> int option" where
  "taskDay day tab t = map_option day (groupingDate tab t)"

definition keyDay :: "(jsstring \<Rightarrow> int option) \<Rightarrow> jsstring \<Rightarrow> int option" where
  "keyDay parse k = (if k = noDate then None else map_option (\<lambda>t. t div msPerDay) (parse k))"

definition dayBefore :: "int option \<Rightarrow> int option \<Rightarrow> bool" where
  "dayBefore x y =
     (case x of
        None \<Rightarrow> False
      | Some a \<Rightarrow> (case y of None \<Rightarrow> True | Some b \<Rightarrow> b < a))"

definition calendarKeys ::
  "(date \<Rightarrow> int) \<Rightarrow> (date \<Rightarrow> jsstring) \<Rightarrow> (jsstring \<Rightarrow> int option) \<Rightarrow> TaskStatus \<Rightarrow> Task list \<Rightarrow> bool" where
  "calendarKeys day format parse tab ts =
     list_all (\<lambda>t.
       case groupingDate tab t of
         None \<Rightarrow> True
       | Some d \<Rightarrow>
           format d \<noteq> noDate \<and> parse (format d) = Some (msPerDay * day d) \<and>
           list_all (\<lambda>t'.
             case groupingDate tab t' of
               None \<Rightarrow> True
             | Some d' \<Rightarrow> day d' = day d \<longrightarrow> format d' = format d) ts) ts"

text \<open>
  A date library for the examples: the UTC calendar, for the years 1 to 9999.
  \<open>civilFromDays\<close> turns a day number (days since 1970-01-01) into year, month and day
  of the Gregorian calendar, \<open>daysFromCivil\<close> goes back; \<open>exampleFormat\<close> writes
  \<open>yyyy-MM-dd\<close>, \<open>exampleParse\<close> reads it as midnight UTC and gives \<open>None\<close> for
  anything else.
\<close>

definition civilFromDays :: "int \<Rightarrow> int \<times> int \<times> int" where
  "civilFromDays n =
     (let z = n + 719468;
          era = z div 146097;
          doe = z mod 146097;
          yoe = (doe - doe div 1460 + doe div 36524 - doe div 146096) div 365;
          doy = doe - (365 * yoe + yoe div 4 - yoe div 100);
          mp = (5 * doy + 2) div 153;
          d = doy - (153 * mp + 2) div 5 + 1;
          m = (if mp < 10 then mp + 3 else mp - 9);
          y = yoe + era * 400 + (if m \<le> 2 then 1 else 0)
      in (y, m, d))"

definition daysFromCivil :: "int \<Rightarrow> int \<Rightarrow> int \<Rightarrow> int" where
  "daysFromCivil y m d =
     (let y' = (if m \<le> 2 then y - 1 else y);
          era = y' div 400;
          yoe = y' - era * 400;
          doy = (153 * (if m > 2 then m - 3 else m + 9) + 2) div 5 + d - 1;
          doe = yoe * 365 + yoe div 4 - yoe div 100 + doy
      in era * 146097 + doe - 719468)"

definition pad2 :: "nat \<Rightarrow> jsstring" where
  "pad2 n = [48 + (n div 10) mod 10, 48 + n mod 10]"

definition pad4 :: "nat \<Rightarrow> jsstring" where
  "pad4 n = [48 + (n div 1000) mod 10, 48 + (n div 100) mod 10, 48 + (n div 10) mod 10, 48 + n mod 10]"

definition exampleFormat :: "date \<Rightarrow> jsstring" where
  "exampleFormat d =
     (case civilFromDays (utcDay d) of
        (y, m, dd) \<Rightarrow> pad4 (nat y) @ [45] @ pad2 (nat m) @ [45] @ pad2 (nat dd))"

definition isDigit :: "nat \<Rightarrow> bool" where
  "isDigit c = (48 \<le> c \<and> c \<le> 57)"

definition digitsValue :: "jsstring \<Rightarrow> int" where
  "digitsValue s = foldl (\<lambda>v c. 10 * v + (int c - 48)) 0 s"

definition exampleParse :: "jsstring \<Rightarrow> int option" where
  "exampleParse s =
     (if length s = 10 \<and> s ! 4 = 45 \<and> s ! 7 = 45
         \<and> list_all isDigit (take 4 s @ take 2 (drop 5 s) @ drop 8 s)
      then (let t = daysFromCivil (digitsValue (take 4 s)) (digitsValue (take 2 (drop 5 s)))
                      (digitsValue (drop 8 s)) * msPerDay
            in if exampleFormat t = s then Some t else None)
      else None)"

text \<open>Tasks due on 2024-06-01 and 2024-06-03, and one with no due date.\<close>

definition exampleDueTasks :: "Task list" where
  "exampleDueTasks =
     [mkDated ''t1'' Current None (Some 1717200000000),
      mkDated ''t2'' Current None (Some 1717376400000),
      mkDated ''t3'' Current None None,
      mkDated ''t4'' Current None (Some 1717207200000),
      mkDated ''t5'' Current None (Some 1717372800000)]"

text \<open>Tasks completed on 2024-05-30 and 2024-05-31, and one completed today.\<close>

definition exampleDoneTasks :: "Task list" where
  "exampleDoneTasks =
     [mkDated ''e1'' Completed (Some 1717027200000) None,
      mkDated ''e2'' Completed (Some 1717113600000) None,
      mkDated ''e3'' Completed (Some 1717063200000) None,
      mkDated ''e4'' Completed (Some 1717318800000) None]"

text \<open>
  Tasks with both dates: completed on 2024-05-30 and due on 2024-06-03; completed on
  2024-05-31 and due on 2024-06-01; completed on 2024-05-30 with no due date.
\<close>

definition exampleMixedTasks :: "Task list" where
  "exampleMixedTasks =
     [mkDated ''m1'' Completed (Some 1717027200000) (Some 1717372800000),
      mkDated ''m2'' Completed (Some 1717113600000) (Some 1717200000000),
      mkDated ''m3'' Completed (Some 1717063200000) None]"

section \<open>The specification's vocabulary for the report\<close>





subsection \<open>Numerals, lines and separators\<close>




text \<open>The lines of a text: the pieces between its line feeds.\<close>

definition splitLines :: "jsstring \<Rightarrow> jsstring list" where
  "splitLines s = foldr (\<lambda>c ls. if c = 10 then [] # ls else (c # hd ls) # tl ls) s [[]]"

text \<open>The pieces \<open>xs\<close> with \<open>sep\<close> between each two neighbours.\<close>

fun separated :: "jsstring \<Rightarrow> jsstring list \<Rightarrow> jsstring" where
  "separated sep [] = []"
| "separated sep (x # xs) = x @ concat (map (\<lambda>y. sep @ y) xs)"

subsection \<open>The HTML syntax of a report\<close>









subsection \<open>The plain-text syntax of a report\<close>









subsection \<open>Text that both syntaxes show unchanged\<close>






subsection \<open>Examples\<close>











section \<open>The examples, evaluated\<close>

lemma lit_eq_iff: "lit a = lit b \<longleftrightarrow> a = b"
  unfolding lit_def by (rule inj_map_eq_map) (simp add: inj_on_def)

lemma exampleFormat_dates:
  "exampleFormat 1717200000000 = lit ''2024-06-01''"
  "exampleFormat 1717207200000 = lit ''2024-06-01''"
  "exampleFormat 1717372800000 = lit ''2024-06-03''"
  "exampleFormat 1717376400000 = lit ''2024-06-03''"
  "exampleFormat 1717027200000 = lit ''2024-05-30''"
  "exampleFormat 1717063200000 = lit ''2024-05-30''"
  "exampleFormat 1717113600000 = lit ''2024-05-31''"
  by code_simp+

lemma exampleParse_keys:
  "exampleParse (lit ''2024-06-01'') = Some 1717200000000"
  "exampleParse (lit ''2024-06-03'') = Some 1717372800000"
  "exampleParse (lit ''2024-05-30'') = Some 1717027200000"
  "exampleParse (lit ''2024-05-31'') = Some 1717113600000"
  by code_simp+

lemmas example_defs =
  exampleDueTasks_def exampleDoneTasks_def mkDated_def mkTask_def dateKeySource_def
  dateKeyOf_def exampleFormat_dates exampleParse_keys noDate_def lit_eq_iff

lemma exampleDueTasks_calendar:
  "calendarKeys utcDay exampleFormat exampleParse Current exampleDueTasks"
  by (simp add: calendarKeys_def example_defs utcDay_def msPerDay_def)

lemma exampleDueTasks_sections:
  "renderTaskList exampleFormat exampleParse Current exampleDueTasks =
     [(lit ''2024-06-03'', [exampleDueTasks ! 4, exampleDueTasks ! 1]),
      (lit ''2024-06-01'', [exampleDueTasks ! 0, exampleDueTasks ! 3]),
      (noDate, [exampleDueTasks ! 2])]"
  by (simp add: renderTaskList_def groupedTasks_def sortedGroupKeys_def sortBy_def
      compareKeys_def groupTasks_def sortTasks_def compareTasks_def example_defs)

lemma exampleDoneTasks_filtered:
  "filteredTasks exampleIsToday Completed exampleDoneTasks = take 3 exampleDoneTasks"
  by (simp add: filteredTasks_def exampleIsToday_def utcDay_def msPerDay_def example_defs)

lemma exampleDoneTasks_sections:
  "renderTaskList exampleFormat exampleParse Completed (take 3 exampleDoneTasks) =
     [(lit ''2024-05-31'', [exampleDoneTasks ! 1]),
      (lit ''2024-05-30'', [exampleDoneTasks ! 2, exampleDoneTasks ! 0])]"
  by (simp add: renderTaskList_def groupedTasks_def sortedGroupKeys_def sortBy_def
      compareKeys_def groupTasks_def sortTasks_def compareTasks_def completedTime_def
      example_defs)

section \<open>The report examples, evaluated\<close>












section \<open>Properties of the rounding\<close>

lemma powi_of_bitlen:
  assumes "0 < (n::int)"
  shows "(2::rat) powi (bitlen n - 1) \<le> of_int n" "of_int n < (2::rat) powi bitlen n"
proof -
  from assms have b: "1 \<le> bitlen n" by (simp add: bitlen_alt_def)
  from bitlen_bounds[OF assms] have l: "2 ^ nat (bitlen n - 1) \<le> n" and u: "n < 2 ^ nat (bitlen n)"
    by simp_all
  from l have "(of_int (2 ^ nat (bitlen n - 1)) :: rat) \<le> of_int n" by (simp only: of_int_le_iff)
  with b show "(2::rat) powi (bitlen n - 1) \<le> of_int n" by (simp add: power_int_def)
  from u have "(of_int n :: rat) < of_int (2 ^ nat (bitlen n))" by (simp only: of_int_less_iff)
  with b show "of_int n < (2::rat) powi bitlen n" by (simp add: power_int_def)
qed

lemma floorLog2_bounds:
  assumes "0 < x"
  shows "2 powi floorLog2 x \<le> x" "x < 2 powi (floorLog2 x + 1)"
proof -
  obtain p q where pq: "quotient_of x = (p, q)" by force
  then have q: "0 < q" and x: "x = of_int p / of_int q"
    by (simp_all add: quotient_of_denom_pos quotient_of_div)
  with assms have p: "0 < p" by (simp add: zero_less_divide_iff)
  define d where "d = bitlen p - bitlen q"
  have qpos: "(0::rat) < of_int q" using q by simp
  have up: "x < 2 powi (d + 1)"
  proof -
    have "x < 2 powi bitlen p / of_int q"
      unfolding x using powi_of_bitlen(2)[OF p] qpos by (simp add: divide_strict_right_mono)
    also have "\<dots> \<le> 2 powi bitlen p / 2 powi (bitlen q - 1)"
      using powi_of_bitlen(1)[OF q] qpos by (intro divide_left_mono mult_pos_pos) simp_all
    also have "\<dots> = 2 powi (d + 1)"
      by (simp add: d_def power_int_diff power_int_add)
    finally show ?thesis .
  qed
  have lo: "2 powi (d - 1) \<le> x"
  proof -
    have "2 powi (d - 1) = 2 powi (bitlen p - 1) / (2::rat) powi bitlen q"
      by (simp add: d_def power_int_diff)
    also have "\<dots> \<le> 2 powi (bitlen p - 1) / of_int q"
      using powi_of_bitlen(2)[OF q] qpos by (intro divide_left_mono mult_pos_pos) simp_all
    also have "\<dots> \<le> x"
      unfolding x using powi_of_bitlen(1)[OF p] qpos by (simp add: divide_right_mono)
    finally show ?thesis .
  qed
  have e: "floorLog2 x = (if 2 powi d \<le> x then d else d - 1)"
    by (simp add: floorLog2_def pq d_def Let_def)
  show "2 powi floorLog2 x \<le> x" using lo by (simp add: e)
  show "x < 2 powi (floorLog2 x + 1)" using up by (simp add: e not_le)
qed

lemma roundHalfEven_error: "\<bar>of_int (roundHalfEven m) - m\<bar> \<le> 1 / 2"
proof -
  have "of_int \<lfloor>m\<rfloor> \<le> m" "m < of_int \<lfloor>m\<rfloor> + 1" by linarith+
  then show ?thesis
    by (auto simp: roundHalfEven_def Let_def abs_le_iff)
qed

lemma fround_error:
  assumes "2 powi (- 1022) \<le> x"
  shows "\<bar>fround x - x\<bar> \<le> x / 2 ^ 53"
proof -
  have pos: "0 < x" using assms by (rule less_le_trans[rotated]) simp
  define e where "e = floorLog2 x"
  have "(2::rat) powi (- 1022) < 2 powi (e + 1)"
    using floorLog2_bounds(2)[OF pos] assms unfolding e_def by (rule le_less_trans[rotated])
  then have "- 1022 < e + 1"
    using power_int_increasing[of "e + 1" "- 1022" "2::rat"] by (cases "- 1022 < e + 1") simp_all
  then have m: "max e (- 1022) = e" by simp
  define u where "u = (2::rat) powi (e - 52)"
  have upos: "0 < u" by (simp add: u_def)
  have f: "fround x = of_int (roundHalfEven (x / u)) * u"
    using pos by (simp add: fround_def Let_def e_def[symmetric] m u_def)
  have "fround x - x = (of_int (roundHalfEven (x / u)) - x / u) * u"
    using upos by (simp add: f left_diff_distrib)
  then have "\<bar>fround x - x\<bar> = \<bar>of_int (roundHalfEven (x / u)) - x / u\<bar> * u"
    using upos by (simp add: abs_mult)
  also have "\<dots> \<le> 1 / 2 * u"
    using roundHalfEven_error[of "x / u"] upos by (intro mult_right_mono) simp_all
  also have "\<dots> = 2 powi e / 2 ^ 53"
    by (simp add: u_def power_int_diff)
  also have "\<dots> \<le> x / 2 ^ 53"
    using floorLog2_bounds(1)[OF pos] by (simp add: e_def divide_right_mono)
  finally show ?thesis .
qed

lemma fround_zero: "fround 0 = 0"
  by (simp add: fround_def)

lemma fround_one: "fround 1 = 1"
  by code_simp

lemma fround_hundred: "fround 100 = 100"
  by code_simp

text \<open>
  The product by 100 of the quotient of two counters, \<open>0 < c \<le> i < 2 ^ 53\<close>, against the
  exact \<open>100 * c / i\<close>: each of the two roundings moves the value by at most one part in
  \<open>2 ^ 53\<close>.
\<close>

lemma rate_error:
  fixes c i :: nat
  assumes c: "0 < c" and ci: "c \<le> i" and i: "i < 2 ^ 53"
  shows "\<bar>fmul (fdiv (of_nat c) (of_nat i)) 100 - 100 * of_nat c / of_nat i\<bar>
     \<le> (100 * of_nat c / of_nat i) / 2 ^ 51"
proof -
  define q :: rat where "q = of_nat c / of_nat i"
  define a where "a = fround q"
  define y where "y = a * 100"
  have ipos: "(0::rat) < of_nat i" using c ci by simp
  have "(of_nat i :: rat) < of_nat (2 ^ 53)" using i by (simp only: of_nat_less_iff)
  then have ilt: "(of_nat i :: rat) < 2 ^ 53" by simp
  have "1 / of_nat i \<le> q"
    unfolding q_def using c ipos by (simp add: divide_right_mono)
  moreover have "(1::rat) / 2 ^ 53 < 1 / of_nat i"
    using ilt ipos by (simp add: frac_less2)
  ultimately have qlo: "1 / 2 ^ 53 < q" by simp
  then have qpos: "0 < q" by (rule less_trans[rotated]) simp
  have small: "(2::rat) powi (- 1022) \<le> 1 / 2 ^ 54"
    using power_int_increasing[of "- 1022" "- 54" "2::rat"] by (simp add: power_int_minus field_simps)
  have "2 powi (- 1022) \<le> q" using small qlo by simp
  from fround_error[OF this] have ea: "\<bar>a - q\<bar> \<le> q / 2 ^ 53" by (simp add: a_def)
  have "q / 2 ^ 53 \<le> q / 2" using qpos by (simp add: field_simps)
  with ea have alo: "q / 2 \<le> a" and ahi: "a \<le> 2 * q"
    using qpos by linarith+
  have "2 powi (- 1022) \<le> y"
    using small alo qlo by (simp add: y_def field_simps)
  from fround_error[OF this] have ey: "\<bar>fround y - y\<bar> \<le> y / 2 ^ 53" .
  have yhi: "y \<le> 200 * q" using ahi by (simp add: y_def)
  have "fround y - 100 * q = (fround y - y) + 100 * (a - q)"
    by (simp add: y_def)
  then have "\<bar>fround y - 100 * q\<bar> \<le> \<bar>fround y - y\<bar> + \<bar>100 * (a - q)\<bar>"
    by (simp only: abs_triangle_ineq)
  moreover have "\<bar>100 * (a - q)\<bar> = 100 * \<bar>a - q\<bar>"
    by (simp only: abs_mult abs_numeral)
  ultimately have "\<bar>fround y - 100 * q\<bar> \<le> \<bar>fround y - y\<bar> + 100 * \<bar>a - q\<bar>"
    by (simp only:)
  also have "\<dots> \<le> 200 * q / 2 ^ 53 + 100 * (q / 2 ^ 53)"
    using ey ea yhi by (simp add: field_simps)
  also have "\<dots> \<le> (100 * q) / 2 ^ 51"
    using qpos by (simp add: field_simps)
  finally show ?thesis
    by (simp add: fmul_def fdiv_def a_def y_def q_def)
qed

section \<open>Properties of the completion calculator\<close>

lemma completedTasksCallback_accomplished: "completedTasksCallback t = accomplished t"
  by (cases "subtasks t")
    (auto simp: completedTasksCallback_def accomplished_def subtaskList_def)

lemma incompleteTasksList_ids:
  "incompleteTasksList tasks =
     filter (\<lambda>t. task_id t \<notin> task_id ` set (completedTasksList tasks)) tasks"
  unfolding incompleteTasksList_def
  by (rule filter_cong) (auto simp: list_ex_iff image_iff)

lemma distinct_ids_same_task:
  assumes "distinct (map task_id tasks)" "a \<in> set tasks" "b \<in> set tasks"
    "task_id a = task_id b"
  shows "a = b"
  using assms by (meson distinct_map inj_onD)

lemma incompleteTasksList_distinct_ids:
  assumes "distinct (map task_id tasks)"
  shows "incompleteTasksList tasks = filter (\<lambda>t. \<not> accomplished t) tasks"
  unfolding incompleteTasksList_ids
proof (rule filter_cong[OF refl])
  fix t assume t: "t \<in> set tasks"
  show "(task_id t \<notin> task_id ` set (completedTasksList tasks)) = (\<not> accomplished t)"
  proof
    assume "task_id t \<notin> task_id ` set (completedTasksList tasks)"
    then have "t \<notin> set (completedTasksList tasks)" by blast
    with t show "\<not> accomplished t"
      by (simp add: completedTasksList_def completedTasksCallback_accomplished)
  next
    assume na: "\<not> accomplished t"
    show "task_id t \<notin> task_id ` set (completedTasksList tasks)"
    proof
      assume "task_id t \<in> task_id ` set (completedTasksList tasks)"
      then obtain c where c: "c \<in> set tasks" "accomplished c" "task_id c = task_id t"
        by (auto simp: completedTasksList_def completedTasksCallback_accomplished)
      from distinct_ids_same_task[OF assms c(1) t c(3)] c(2) na show False by simp
    qed
  qed
qed

text \<open>
  Claim C1, amended. A task of the group is in the accomplished list exactly when it is
  accomplished (subtasks non-empty and all completed, or no subtasks and status
  completed). The outstanding list keeps the tasks whose id is not the id of an
  accomplished task, so the ids of the group are partitioned: every id of the group is
  the id of a task in exactly one of the two lists. For a group whose tasks have pairwise
  distinct ids, the outstanding list is the group without the accomplished tasks, and the
  two lists together hold every task of the group once, no task twice.
\<close>

theorem report_partition:
  "(t \<in> set (completedTasksList tasks) \<longleftrightarrow> t \<in> set tasks \<and> accomplished t)
   \<and> incompleteTasksList tasks =
       filter (\<lambda>t. task_id t \<notin> task_id ` set (completedTasksList tasks)) tasks
   \<and> set (completedTasksList tasks) \<inter> set (incompleteTasksList tasks) = {}
   \<and> task_id ` set (completedTasksList tasks) \<union> task_id ` set (incompleteTasksList tasks)
       = task_id ` set tasks
   \<and> task_id ` set (completedTasksList tasks) \<inter> task_id ` set (incompleteTasksList tasks)
       = {}
   \<and> (distinct (map task_id tasks) \<longrightarrow>
        incompleteTasksList tasks = filter (\<lambda>t. \<not> accomplished t) tasks
        \<and> mset (completedTasksList tasks) + mset (incompleteTasksList tasks) = mset tasks
        \<and> distinct (completedTasksList tasks @ incompleteTasksList tasks))"
proof (intro conjI impI)
  show "t \<in> set (completedTasksList tasks) \<longleftrightarrow> t \<in> set tasks \<and> accomplished t"
    by (auto simp: completedTasksList_def completedTasksCallback_accomplished)
  show "incompleteTasksList tasks =
      filter (\<lambda>t. task_id t \<notin> task_id ` set (completedTasksList tasks)) tasks"
    by (rule incompleteTasksList_ids)
  show "set (completedTasksList tasks) \<inter> set (incompleteTasksList tasks) = {}"
    by (auto simp: incompleteTasksList_ids)
  show "task_id ` set (completedTasksList tasks) \<union> task_id ` set (incompleteTasksList tasks)
       = task_id ` set tasks"
    by (auto simp: incompleteTasksList_ids completedTasksList_def)
  show "task_id ` set (completedTasksList tasks) \<inter> task_id ` set (incompleteTasksList tasks)
       = {}"
  proof (rule equals0I)
    fix x
    assume "x \<in> task_id ` set (completedTasksList tasks)
      \<inter> task_id ` set (incompleteTasksList tasks)"
    then obtain a b where a: "a \<in> set (completedTasksList tasks)" "x = task_id a"
      and b: "b \<in> set (incompleteTasksList tasks)" "x = task_id b"
      by blast
    from b(1) have "task_id b \<notin> task_id ` set (completedTasksList tasks)"
      by (simp add: incompleteTasksList_ids)
    moreover from a b(2) have "task_id b \<in> task_id ` set (completedTasksList tasks)"
      by (metis imageI)
    ultimately show False by simp
  qed
next
  assume d: "distinct (map task_id tasks)"
  show inc: "incompleteTasksList tasks = filter (\<lambda>t. \<not> accomplished t) tasks"
    by (rule incompleteTasksList_distinct_ids[OF d])
  have com: "completedTasksList tasks = filter accomplished tasks"
    by (simp add: completedTasksList_def completedTasksCallback_accomplished[abs_def])
  show "mset (completedTasksList tasks) + mset (incompleteTasksList tasks) = mset tasks"
    unfolding inc com by simp
  from d have "distinct tasks" by (simp add: distinct_map)
  then show "distinct (completedTasksList tasks @ incompleteTasksList tasks)"
    unfolding inc com by auto
qed

theorem report_partition_witness:
  "distinct (map task_id exampleGroup)
   \<and> completedTasksList exampleGroup = [taskA]
   \<and> incompleteTasksList exampleGroup = [taskB, taskC]
   \<and> mset (completedTasksList exampleGroup) + mset (incompleteTasksList exampleGroup)
       = mset exampleGroup"
proof -
  have d: "distinct (map task_id exampleGroup)"
    by (simp add: exampleGroup_def taskA_def taskB_def taskC_def mkTask_def lit_def)
  have acc: "accomplished taskA" "\<not> accomplished taskB" "\<not> accomplished taskC"
    by (simp_all add: accomplished_def subtaskList_def taskA_def taskB_def taskC_def
        mkTask_def mkSubtask_def)
  have com: "completedTasksList exampleGroup = [taskA]"
    by (simp add: completedTasksList_def completedTasksCallback_accomplished[abs_def]
        exampleGroup_def acc)
  from report_partition[of taskA exampleGroup] d
  have "incompleteTasksList exampleGroup = filter (\<lambda>t. \<not> accomplished t) exampleGroup"
    and "mset (completedTasksList exampleGroup) + mset (incompleteTasksList exampleGroup)
       = mset exampleGroup"
    by blast+
  with d com acc show ?thesis
    by (simp add: exampleGroup_def)
qed

text \<open>
  Without distinct ids the two lists need not cover the group: in \<open>sharedIdGroup\<close> the
  second task is not accomplished, and it is left out of the outstanding list because it
  shares its id with the first.
\<close>

theorem report_partition_counterexample:
  "completedTasksList sharedIdGroup = [sharedIdGroup ! 0]
   \<and> incompleteTasksList sharedIdGroup = [sharedIdGroup ! 2]
   \<and> sharedIdGroup ! 1 \<in> set sharedIdGroup
   \<and> \<not> accomplished (sharedIdGroup ! 1)
   \<and> sharedIdGroup ! 1 \<notin> set (incompleteTasksList sharedIdGroup)
   \<and> mset (completedTasksList sharedIdGroup) + mset (incompleteTasksList sharedIdGroup)
       \<noteq> mset sharedIdGroup"
  by (simp add: sharedIdGroup_def completedTasksList_def incompleteTasksList_def
      completedTasksCallback_def accomplished_def subtaskList_def mkTask_def lit_def)

lemma completionStep_units:
  "completionStep (a, b) t = (a + unitCount t, b + unitsDone t)"
  by (cases "subtasks t")
    (auto simp: completionStep_def subtasksNonEmpty_def unitCount_def unitsDone_def
      subtaskList_def max_def Suc_le_eq)

lemma foldl_completionStep:
  "foldl completionStep (a, b) tasks =
     (a + sum_list (map unitCount tasks), b + sum_list (map unitsDone tasks))"
  by (induction tasks arbitrary: a b) (simp_all add: completionStep_units add.assoc)

lemma unitCount_pos: "0 < unitCount t"
  by (simp add: unitCount_def)

lemma unitsDone_le: "unitsDone t \<le> unitCount t"
  by (simp add: unitCount_def unitsDone_def max_def le_trans[OF length_filter_le])

lemma sum_unitCount_zero: "sum_list (map unitCount tasks) = 0 \<longleftrightarrow> tasks = []"
  by (cases tasks) (simp_all add: unitCount_def)

lemma sum_units_all_done:
  "list_all (\<lambda>t. unitsDone t = unitCount t) tasks \<Longrightarrow>
     sum_list (map unitsDone tasks) = sum_list (map unitCount tasks)"
  by (induction tasks) simp_all

lemma sum_unitsDone_le: "sum_list (map unitsDone tasks) \<le> sum_list (map unitCount tasks)"
  by (induction tasks) (simp_all add: add_mono unitsDone_le)

lemma itemsForCompletion_units: "itemsForCompletion tasks = sum_list (map unitCount tasks)"
  by (simp add: itemsForCompletion_def foldl_completionStep)

lemma completedItemsForCompletion_units:
  "completedItemsForCompletion tasks = sum_list (map unitsDone tasks)"
  by (simp add: completedItemsForCompletion_def foldl_completionStep)

text \<open>
  Claim C2, amended. Each task adds max(1, number of subtasks) to the denominator, and to
  the numerator its completed-subtask count (or 1 when it has no subtasks and its status
  is completed, else 0). The rate is 0 when the denominator is 0, which happens exactly
  for the empty group. Otherwise it is the double-precision product by 100 of the
  double-precision quotient of numerator and denominator; for a group of fewer than
  \<open>2 ^ 53\<close> units it differs from 100 times numerator over denominator by at most one
  part in \<open>2 ^ 51\<close> of that value. For a non-empty group whose every completion unit
  is complete the rate is exactly 100.
\<close>

theorem completion_rate_units:
  "itemsForCompletion tasks = sum_list (map unitCount tasks)
   \<and> completedItemsForCompletion tasks = sum_list (map unitsDone tasks)
   \<and> completionRate tasks =
       (if sum_list (map unitCount tasks) = 0 then 0
        else fmul (fdiv (of_nat (sum_list (map unitsDone tasks)))
                        (of_nat (sum_list (map unitCount tasks)))) 100)
   \<and> (0 < sum_list (map unitCount tasks) \<and> sum_list (map unitCount tasks) < 2 ^ 53 \<longrightarrow>
        \<bar>completionRate tasks
           - 100 * of_nat (sum_list (map unitsDone tasks)) / of_nat (sum_list (map unitCount tasks))\<bar>
        \<le> (100 * of_nat (sum_list (map unitsDone tasks))
             / of_nat (sum_list (map unitCount tasks))) / 2 ^ 51)
   \<and> (sum_list (map unitCount tasks) = 0 \<longleftrightarrow> tasks = [])
   \<and> completionRate [] = 0
   \<and> (tasks \<noteq> [] \<and> list_all (\<lambda>t. unitsDone t = unitCount t) tasks \<longrightarrow>
        completionRate tasks = 100)"
proof -
  define n where "n = sum_list (map unitsDone tasks)"
  define d where "d = sum_list (map unitCount tasks)"
  have rate: "completionRate tasks = (if d = 0 then 0 else fmul (fdiv (of_nat n) (of_nat d)) 100)"
    unfolding completionRate_def itemsForCompletion_units completedItemsForCompletion_units
      n_def[symmetric] d_def[symmetric]
    by (cases "d = 0") simp_all
  have empty: "completionRate [] = 0"
    by (simp add: completionRate_def itemsForCompletion_def)
  have le: "n \<le> d"
    unfolding n_def d_def by (rule sum_unitsDone_le)
  have near: "\<bar>completionRate tasks - 100 * of_nat n / of_nat d\<bar>
      \<le> (100 * of_nat n / of_nat d) / 2 ^ 51"
    if pos: "0 < d" and small: "d < 2 ^ 53"
  proof (cases "n = 0")
    case True
    have "fmul (fdiv 0 (of_nat d)) 100 = 0"
      by (simp add: fdiv_def fmul_def fround_zero)
    with pos True show ?thesis
      by (simp add: rate)
  next
    case False
    then have "0 < n" by simp
    from rate_error[OF this le small] pos show ?thesis
      by (simp add: rate)
  qed
  have zero: "(d = 0) = (tasks = [])"
    unfolding d_def by (rule sum_unitCount_zero)
  have full: "completionRate tasks = 100"
    if ne: "tasks \<noteq> []" and all: "list_all (\<lambda>t. unitsDone t = unitCount t) tasks"
  proof -
    from ne zero have d0: "d \<noteq> 0" by simp
    from sum_units_all_done[OF all] have nd: "n = d"
      by (simp add: n_def d_def)
    from d0 have "fdiv (of_nat d) (of_nat d) = 1"
      by (simp add: fdiv_def fround_one)
    with d0 show ?thesis
      by (simp add: rate nd fmul_def fround_hundred)
  qed
  have near': "0 < d \<and> d < 2 ^ 53 \<longrightarrow>
      \<bar>completionRate tasks - 100 * of_nat n / of_nat d\<bar> \<le> (100 * of_nat n / of_nat d) / 2 ^ 51"
    using near by blast
  have full': "tasks \<noteq> [] \<and> list_all (\<lambda>t. unitsDone t = unitCount t) tasks \<longrightarrow>
      completionRate tasks = 100"
    using full by blast
  have i: "itemsForCompletion tasks = d"
    unfolding d_def by (rule itemsForCompletion_units)
  have c: "completedItemsForCompletion tasks = n"
    unfolding n_def by (rule completedItemsForCompletion_units)
  from i c rate near' zero empty full' have
    "itemsForCompletion tasks = d
     \<and> completedItemsForCompletion tasks = n
     \<and> completionRate tasks = (if d = 0 then 0 else fmul (fdiv (of_nat n) (of_nat d)) 100)
     \<and> (0 < d \<and> d < 2 ^ 53 \<longrightarrow>
        \<bar>completionRate tasks - 100 * of_nat n / of_nat d\<bar> \<le> (100 * of_nat n / of_nat d) / 2 ^ 51)
     \<and> (d = 0 \<longleftrightarrow> tasks = [])
     \<and> completionRate [] = 0
     \<and> (tasks \<noteq> [] \<and> list_all (\<lambda>t. unitsDone t = unitCount t) tasks \<longrightarrow>
        completionRate tasks = 100)"
    by (intro conjI)
  then show ?thesis
    unfolding n_def d_def .
qed

lemma half_rate: "fmul (fdiv 2 4) 100 = 50"
  by code_simp

theorem completion_rate_units_witness:
  "completionRate exampleGroup = 50 \<and> completionRate [taskA] = 100
   \<and> \<bar>completionRate exampleGroup - 100 * 2 / 4\<bar> \<le> (100 * 2 / 4) / 2 ^ 51"
proof -
  have n: "sum_list (map unitsDone exampleGroup) = 2"
    and d: "sum_list (map unitCount exampleGroup) = 4"
    by (simp_all add: exampleGroup_def taskA_def taskB_def taskC_def mkTask_def mkSubtask_def
        unitCount_def unitsDone_def subtaskList_def)
  have a: "[taskA] \<noteq> [] \<and> list_all (\<lambda>t. unitsDone t = unitCount t) [taskA]"
    by (simp add: taskA_def mkTask_def unitCount_def unitsDone_def subtaskList_def)
  have "completionRate exampleGroup =
      (if sum_list (map unitCount exampleGroup) = 0 then 0
       else fmul (fdiv (of_nat (sum_list (map unitsDone exampleGroup)))
                       (of_nat (sum_list (map unitCount exampleGroup)))) 100)"
    using completion_rate_units[of exampleGroup] by blast
  then have r: "completionRate exampleGroup = 50"
    by (simp add: n d half_rate)
  have "0 < sum_list (map unitCount exampleGroup) \<and> sum_list (map unitCount exampleGroup) < 2 ^ 53 \<longrightarrow>
        \<bar>completionRate exampleGroup
           - 100 * of_nat (sum_list (map unitsDone exampleGroup))
             / of_nat (sum_list (map unitCount exampleGroup))\<bar>
        \<le> (100 * of_nat (sum_list (map unitsDone exampleGroup))
             / of_nat (sum_list (map unitCount exampleGroup))) / 2 ^ 51"
    using completion_rate_units[of exampleGroup] by blast
  then have b: "\<bar>completionRate exampleGroup - 100 * 2 / 4\<bar> \<le> (100 * 2 / 4) / 2 ^ 51"
    by (simp add: n d)
  have f: "completionRate [taskA] = 100"
    using completion_rate_units[of "[taskA]"] a by blast
  from r f b show ?thesis by (intro conjI)
qed

lemma eleven_twentieths_rate: "fmul (fdiv 11 20) 100 = 55 + 1 / 2 ^ 47"
  by code_simp

text \<open>
  The rate is not always 100 times numerator over denominator: at 11 of 20 units the
  quotient is rounded up and so is the product, and the rate is the double next above 55.
\<close>

theorem completion_rate_units_counterexample:
  "itemsForCompletion elevenOfTwenty = 20
   \<and> completedItemsForCompletion elevenOfTwenty = 11
   \<and> completionRate elevenOfTwenty = 55 + 1 / 2 ^ 47
   \<and> completionRate elevenOfTwenty \<noteq> 100 * 11 / 20"
proof -
  have u: "map unitCount elevenOfTwenty = [20]" "map unitsDone elevenOfTwenty = [11]"
    by (simp_all add: elevenOfTwenty_def mkTask_def mkSubtask_def unitCount_def unitsDone_def
        subtaskList_def)
  have i: "itemsForCompletion elevenOfTwenty = 20"
    and c: "completedItemsForCompletion elevenOfTwenty = 11"
    by (simp_all add: itemsForCompletion_units completedItemsForCompletion_units u)
  have r: "completionRate elevenOfTwenty = 55 + 1 / 2 ^ 47"
    by (simp add: completionRate_def i c eleven_twentieths_rate)
  from i c r show ?thesis by simp
qed

text \<open>
  At 23 of 40 units the quotient is rounded down, the rate is the double next below 57.5,
  and the report shows 57 percent.
\<close>

lemma twenty_three_fortieths_rate: "fmul (fdiv 23 40) 100 = 115 / 2 - 1 / 2 ^ 47"
  by code_simp

lemma twentyThreeOfForty_progress:
  "completionRate twentyThreeOfForty = 115 / 2 - 1 / 2 ^ 47"
  "toFixed0 (completionRate twentyThreeOfForty) = lit ''57''"
proof -
  have u: "map unitCount twentyThreeOfForty = [40]" "map unitsDone twentyThreeOfForty = [23]"
    by (simp_all add: twentyThreeOfForty_def mkTask_def mkSubtask_def unitCount_def
        unitsDone_def subtaskList_def)
  show r: "completionRate twentyThreeOfForty = 115 / 2 - 1 / 2 ^ 47"
    by (simp add: completionRate_def itemsForCompletion_units completedItemsForCompletion_units
        u twenty_three_fortieths_rate)
  have "\<lfloor>115 / 2 - 1 / 2 ^ 47 + 1 / 2 :: rat\<rfloor> = 57"
    by (simp add: floor_eq_iff)
  then show "toFixed0 (completionRate twentyThreeOfForty) = lit ''57''"
    by (simp add: r toFixed0_def showNat.simps lit_def)
qed

section \<open>Properties of the checkbox handlers\<close>

lemma handleCheck_nonempty:
  assumes "subtasks t = Some sts" "sts \<noteq> []"
  shows "handleCheck now t v =
     \<lparr>upd_status = Some (if v then Completed else Current),
      upd_completedAt = Some (if v then Some now else None),
      upd_subtasks = Some (Some (setAll v sts))\<rparr>"
  using assms by (simp add: handleCheck_def setAll_def Let_def)

lemma subtasks_applyUpdates:
  "subtasks (applyUpdates x u) = (case upd_subtasks u of None \<Rightarrow> subtasks x | Some s \<Rightarrow> s)"
  by (simp add: applyUpdates_def)

lemma setAll_idem: "setAll v (setAll v sts) = setAll v sts"
  by (simp add: setAll_def)

lemma setAll_flags: "list_all (\<lambda>st. completed st = v) (setAll v sts)"
  by (simp add: setAll_def list_all_iff)

text \<open>
  Claim C6. For a task with at least one subtask, the primary checkbox set to \<open>v\<close>
  yields an update whose subtasks are the task's subtasks with every completed flag equal
  to \<open>v\<close> (nothing else changed), whose status is completed with completedAt set to
  the current time when \<open>v\<close> is true, and current with completedAt cleared when
  \<open>v\<close> is false. Setting the checkbox to \<open>v\<close> again on the updated task leaves
  the subtasks as they are.
\<close>

theorem handleCheck_cascade:
  assumes "subtasks t = Some sts" and "sts \<noteq> []"
  shows "upd_subtasks (handleCheck now t v) = Some (Some (setAll v sts))
    \<and> list_all (\<lambda>st. completed st = v) (setAll v sts)
    \<and> map subtask_id (setAll v sts) = map subtask_id sts
    \<and> map subtask_title (setAll v sts) = map subtask_title sts
    \<and> upd_status (handleCheck now t v) = Some (if v then Completed else Current)
    \<and> upd_completedAt (handleCheck now t v) = Some (if v then Some now else None)
    \<and> (subtasks t' = Some (setAll v sts) \<longrightarrow>
          upd_subtasks (handleCheck now' t' v) = upd_subtasks (handleCheck now t v))
    \<and> subtasks (applyUpdates (applyUpdates t (handleCheck now t v))
          (handleCheck now' (applyUpdates t (handleCheck now t v)) v))
        = subtasks (applyUpdates t (handleCheck now t v))"
proof -
  let ?u = "handleCheck now t v"
  let ?t' = "applyUpdates t ?u"
  have u: "?u = \<lparr>upd_status = Some (if v then Completed else Current),
      upd_completedAt = Some (if v then Some now else None),
      upd_subtasks = Some (Some (setAll v sts))\<rparr>"
    by (rule handleCheck_nonempty[OF assms])
  have s': "subtasks ?t' = Some (setAll v sts)"
    by (simp add: u applyUpdates_def)
  have ne: "setAll v sts \<noteq> []"
    using assms(2) by (simp add: setAll_def)
  have u': "upd_subtasks (handleCheck now' ?t' v) = Some (Some (setAll v sts))"
    by (simp add: handleCheck_nonempty[OF s' ne] setAll_idem)
  have idem: "subtasks (applyUpdates ?t' (handleCheck now' ?t' v)) = subtasks ?t'"
    by (simp only: subtasks_applyUpdates[of ?t'] u' s' option.case)
  have again: "upd_subtasks (handleCheck now' t' v) = upd_subtasks (handleCheck now t v)"
    if "subtasks t' = Some (setAll v sts)"
    by (simp add: handleCheck_nonempty[OF that ne] u setAll_idem)
  show ?thesis
    using idem again by (simp add: u setAll_flags) (simp add: setAll_def comp_def)
qed

theorem handleCheck_cascade_witness:
  "subtasks taskB = Some [mkSubtask ''b1'' ''first'' True, mkSubtask ''b2'' ''second'' False]
   \<and> upd_subtasks (handleCheck 1717250000000 taskB True)
       = Some (Some [mkSubtask ''b1'' ''first'' True, mkSubtask ''b2'' ''second'' True])
   \<and> upd_status (handleCheck 1717250000000 taskB True) = Some Completed
   \<and> upd_completedAt (handleCheck 1717250000000 taskB True) = Some (Some 1717250000000)"
proof -
  have s: "subtasks taskB = Some [mkSubtask ''b1'' ''first'' True, mkSubtask ''b2'' ''second'' False]"
    by (simp add: taskB_def mkTask_def)
  have ne: "[mkSubtask ''b1'' ''first'' True, mkSubtask ''b2'' ''second'' False] \<noteq> []"
    by simp
  from handleCheck_cascade[OF s ne, of 1717250000000 True taskB] s show ?thesis
    by (simp add: setAll_def mkSubtask_def)
qed

lemma handleSubtaskCheck_nonempty:
  assumes "subtasks t = Some sts" "sts \<noteq> []"
  shows "handleSubtaskCheck now t sid v =
     \<lparr>upd_status = Some (if list_all completed (toggleOne sid v sts) then Completed else Current),
      upd_completedAt = Some (if list_all completed (toggleOne sid v sts) then Some now else None),
      upd_subtasks = Some (Some (toggleOne sid v sts))\<rparr>"
  using assms by (simp add: handleSubtaskCheck_def toggleOne_def Let_def subtasksNonEmpty_def)

text \<open>
  Claim C7. For a task with a non-empty subtask list, checking or unchecking a subtask
  yields an update whose status is completed, with completedAt set to the current time,
  exactly when every subtask of the updated list is completed; otherwise its status is
  current and completedAt is cleared. The update does not depend on the status and
  completedAt the task had before.
\<close>

theorem handleSubtaskCheck_recomputes:
  assumes "subtasks t = Some sts" and "sts \<noteq> []"
  shows "upd_subtasks (handleSubtaskCheck now t sid v) = Some (Some (toggleOne sid v sts))
    \<and> upd_status (handleSubtaskCheck now t sid v)
        = Some (if list_all completed (toggleOne sid v sts) then Completed else Current)
    \<and> upd_completedAt (handleSubtaskCheck now t sid v)
        = Some (if list_all completed (toggleOne sid v sts) then Some now else None)
    \<and> handleSubtaskCheck now (t\<lparr>status := s0, completedAt := c0\<rparr>) sid v
        = handleSubtaskCheck now t sid v"
proof -
  have "subtasks (t\<lparr>status := s0, completedAt := c0\<rparr>) = Some sts"
    using assms(1) by simp
  from handleSubtaskCheck_nonempty[OF this assms(2)] handleSubtaskCheck_nonempty[OF assms]
  show ?thesis by simp
qed

theorem handleSubtaskCheck_recomputes_witness:
  "subtasks taskB = Some [mkSubtask ''b1'' ''first'' True, mkSubtask ''b2'' ''second'' False]
   \<and> upd_status (handleSubtaskCheck 1717250000000 taskB (lit ''b2'') True) = Some Completed
   \<and> upd_completedAt (handleSubtaskCheck 1717250000000 taskB (lit ''b2'') True)
       = Some (Some 1717250000000)
   \<and> upd_status (handleSubtaskCheck 1717250000000 taskB (lit ''b1'') False) = Some Current
   \<and> upd_completedAt (handleSubtaskCheck 1717250000000 taskB (lit ''b1'') False) = Some None"
proof -
  have s: "subtasks taskB = Some [mkSubtask ''b1'' ''first'' True, mkSubtask ''b2'' ''second'' False]"
    by (simp add: taskB_def mkTask_def)
  have ne: "[mkSubtask ''b1'' ''first'' True, mkSubtask ''b2'' ''second'' False] \<noteq> []"
    by simp
  from handleSubtaskCheck_recomputes[OF s ne, of 1717250000000 "lit ''b2''" True]
    handleSubtaskCheck_recomputes[OF s ne, of 1717250000000 "lit ''b1''" False] s
  show ?thesis
    by (simp add: toggleOne_def mkSubtask_def lit_def)
qed

section \<open>Properties of the tabs\<close>

lemma filteredTasks_inTab: "filteredTasks isToday tab tasks = filter (inTab isToday tab) tasks"
  unfolding filteredTasks_def by (cases tab) (simp_all cong: filter_cong)

lemma getCount_inTab: "getCount isToday tasks tab = length (filter (inTab isToday tab) tasks)"
  unfolding getCount_def by (cases tab) (simp_all cong: filter_cong)

text \<open>
  Claim C3. The filtered list of a tab holds the tasks of the collection that satisfy the
  tab's membership predicate: for the current tab, status current, or status completed
  with a completedAt that falls on the current calendar day; for the completed tab, status
  completed with a completedAt that does not fall on the current calendar day; for the
  pending tab, status pending. The count displayed for a tab is the number of tasks of the
  whole collection that satisfy the same predicate, whichever tab is active.
\<close>

theorem tab_membership:
  "filteredTasks isToday tab tasks = filter (inTab isToday tab) tasks
   \<and> getCount isToday tasks tab = length (filter (inTab isToday tab) tasks)
   \<and> getCount isToday tasks tab = length (filteredTasks isToday tab tasks)
   \<and> (t \<in> set (filteredTasks isToday tab tasks) \<longleftrightarrow> t \<in> set tasks \<and> inTab isToday tab t)"
  by (simp add: filteredTasks_inTab getCount_inTab)

theorem tab_membership_witness:
  "map (getCount exampleIsToday exampleCollection) [Current, Completed, Pending] = [3, 1, 1]
   \<and> map task_id (filteredTasks exampleIsToday Current exampleCollection)
       = [lit ''c1'', lit ''c2'', lit ''d1'']
   \<and> map task_id (filteredTasks exampleIsToday Completed exampleCollection) = [lit ''d2'']
   \<and> map task_id (filteredTasks exampleIsToday Pending exampleCollection) = [lit ''p1'']"
proof -
  have "filter (inTab exampleIsToday Current) exampleCollection = take 3 exampleCollection"
    "filter (inTab exampleIsToday Completed) exampleCollection = [exampleCollection ! 3]"
    "filter (inTab exampleIsToday Pending) exampleCollection = [exampleCollection ! 4]"
    by (simp_all add: exampleCollection_def mkDated_def mkTask_def exampleIsToday_def
      utcDay_def msPerDay_def)
  with tab_membership[of exampleIsToday Current exampleCollection]
    tab_membership[of exampleIsToday Completed exampleCollection]
    tab_membership[of exampleIsToday Pending exampleCollection]
  show ?thesis
    by (simp add: exampleCollection_def mkDated_def mkTask_def)
qed

text \<open>
  Claim C10. A task whose status is completed and whose completedAt is absent satisfies
  none of the three membership predicates: it is in no tab's filtered list, and no tab's
  count changes when it is added to the collection.
\<close>

theorem completed_without_date_in_no_tab:
  assumes "status t = Completed" and "completedAt t = None"
  shows "\<not> inTab isToday tab t
    \<and> t \<notin> set (filteredTasks isToday tab tasks)
    \<and> filteredTasks isToday tab (xs @ t # ys) = filteredTasks isToday tab (xs @ ys)
    \<and> getCount isToday (xs @ t # ys) tab = getCount isToday (xs @ ys) tab"
proof -
  from assms have n: "\<not> inTab isToday tab t" by (cases tab) simp_all
  then show ?thesis
    by (simp add: filteredTasks_inTab getCount_inTab)
qed

theorem completed_without_date_in_no_tab_witness:
  "status undatedCompleted = Completed \<and> completedAt undatedCompleted = None
   \<and> map (\<lambda>tab. getCount exampleIsToday (undatedCompleted # exampleCollection) tab)
        [Current, Completed, Pending] = [3, 1, 1]
   \<and> undatedCompleted \<notin> set (filteredTasks exampleIsToday Current [undatedCompleted])
   \<and> undatedCompleted \<notin> set (filteredTasks exampleIsToday Completed [undatedCompleted])
   \<and> undatedCompleted \<notin> set (filteredTasks exampleIsToday Pending [undatedCompleted])"
proof -
  have s: "status undatedCompleted = Completed" and c: "completedAt undatedCompleted = None"
    by (simp_all add: undatedCompleted_def mkDated_def mkTask_def)
  have e: "map (getCount exampleIsToday exampleCollection) [Current, Completed, Pending] = [3, 1, 1]"
    by (simp add: getCount_def exampleCollection_def mkDated_def mkTask_def exampleIsToday_def
      utcDay_def msPerDay_def)
  from completed_without_date_in_no_tab[OF s c, of exampleIsToday _ "[undatedCompleted]" "[]" exampleCollection]
  show ?thesis using s c e by simp
qed

section \<open>Properties of the sort\<close>

lemma mset_insertBy: "mset (insertBy cmp x xs) = add_mset x (mset xs)"
  by (induction xs) simp_all

lemma mset_sortBy: "mset (sortBy cmp xs) = mset xs"
  unfolding sortBy_def by (induction xs) (simp_all add: mset_insertBy)

lemma set_insertBy: "set (insertBy cmp x xs) = insert x (set xs)"
  using mset_insertBy[of cmp x xs] by (metis set_mset_add_mset_insert set_mset_mset)

lemma set_sortBy: "set (sortBy cmp xs) = set xs"
  using mset_sortBy[of cmp xs] by (metis set_mset_mset)

lemma sorted_wrt_insertBy:
  assumes "sorted_wrt R ys"
    and agree: "\<And>y. y \<in> set ys \<Longrightarrow> if cmp x y \<le> 0 then R x y else R y x"
    and trans: "\<And>y z. y \<in> set ys \<Longrightarrow> z \<in> set ys \<Longrightarrow> R x y \<Longrightarrow> R y z \<Longrightarrow> R x z"
  shows "sorted_wrt R (insertBy cmp x ys)"
  using assms
proof (induction ys)
  case Nil
  then show ?case by simp
next
  case (Cons y ys)
  show ?case
  proof (cases "cmp x y \<le> 0")
    case True
    with Cons.prems(2)[of y] have xy: "R x y" by simp
    have "R x z" if "z \<in> set ys" for z
      using Cons.prems(3)[of y z] that xy Cons.prems(1) by simp
    with True xy Cons.prems(1) show ?thesis by simp
  next
    case False
    with Cons.prems(2)[of y] have yx: "R y x" by simp
    have "sorted_wrt R (insertBy cmp x ys)"
    proof (rule Cons.IH)
      show "sorted_wrt R ys" using Cons.prems(1) by simp
      show "if cmp x z \<le> 0 then R x z else R z x" if "z \<in> set ys" for z
        using Cons.prems(2)[of z] that by simp
      show "R x z" if "u \<in> set ys" "z \<in> set ys" "R x u" "R u z" for u z
        using Cons.prems(3)[of u z] that by simp
    qed
    with False yx Cons.prems(1) show ?thesis
      by (simp add: set_insertBy)
  qed
qed

lemma sorted_wrt_sortBy:
  assumes agree: "\<And>a b. a \<in> set xs \<Longrightarrow> b \<in> set xs \<Longrightarrow> if cmp a b \<le> 0 then R a b else R b a"
    and trans: "\<And>a b c. a \<in> set xs \<Longrightarrow> b \<in> set xs \<Longrightarrow> c \<in> set xs \<Longrightarrow> R a b \<Longrightarrow> R b c \<Longrightarrow> R a c"
  shows "sorted_wrt R (sortBy cmp xs)"
  using assms
proof (induction xs)
  case Nil
  then show ?case by (simp add: sortBy_def)
next
  case (Cons x xs)
  have IH: "sorted_wrt R (sortBy cmp xs)"
  proof (rule Cons.IH)
    show "if cmp a b \<le> 0 then R a b else R b a" if "a \<in> set xs" "b \<in> set xs" for a b
      using Cons.prems(1)[of a b] that by simp
    show "R a c" if "a \<in> set xs" "b \<in> set xs" "c \<in> set xs" "R a b" "R b c" for a b c
      using Cons.prems(2)[of a b c] that by simp
  qed
  have "sorted_wrt R (insertBy cmp x (sortBy cmp xs))"
  proof (rule sorted_wrt_insertBy[OF IH])
    fix y assume "y \<in> set (sortBy cmp xs)"
    then show "if cmp x y \<le> 0 then R x y else R y x"
      using Cons.prems(1)[of x y] by (simp add: set_sortBy)
  next
    fix y z assume "y \<in> set (sortBy cmp xs)" "z \<in> set (sortBy cmp xs)" "R x y" "R y z"
    then show "R x z"
      using Cons.prems(2)[of x y z] by (simp add: set_sortBy)
  qed
  then show ?case by (simp add: sortBy_def)
qed

section \<open>Properties of sortTasks\<close>

lemma dueOrder_agree:
  "tab \<noteq> Completed \<Longrightarrow> if compareTasks tab a b \<le> 0 then dueOrder a b else dueOrder b a"
  by (auto simp: compareTasks_def dueOrder_def split: option.splits)

lemma dueOrder_trans: "dueOrder a b \<Longrightarrow> dueOrder b c \<Longrightarrow> dueOrder a c"
  by (auto simp: dueOrder_def split: option.splits)

lemma completedOrder_agree:
  assumes "(hasCompletedAt a \<and> hasCompletedAt b) \<or> (completedAfterEpoch a \<and> completedAfterEpoch b)"
  shows "if compareTasks Completed a b \<le> 0 then completedOrder a b else completedOrder b a"
  using assms
  by (auto simp: compareTasks_def completedOrder_def completedTime_def hasCompletedAt_def
      completedAfterEpoch_def split: option.splits)

lemma completedOrder_trans: "completedOrder a b \<Longrightarrow> completedOrder b c \<Longrightarrow> completedOrder a c"
  by (auto simp: completedOrder_def split: option.splits)

lemma sortTasks_mset: "mset (sortTasks tab g) = mset g"
  by (simp add: sortTasks_def mset_sortBy)

lemma sortTasks_due:
  assumes "tab \<noteq> Completed"
  shows "sorted_wrt dueOrder (sortTasks tab g)"
  unfolding sortTasks_def
  by (rule sorted_wrt_sortBy) (use assms dueOrder_agree dueOrder_trans in blast)+

lemma sortTasks_completed:
  assumes "list_all hasCompletedAt g \<or> list_all completedAfterEpoch g"
  shows "sorted_wrt completedOrder (sortTasks Completed g)"
  unfolding sortTasks_def
proof (rule sorted_wrt_sortBy)
  fix a b assume "a \<in> set g" "b \<in> set g"
  with assms have "(hasCompletedAt a \<and> hasCompletedAt b) \<or> (completedAfterEpoch a \<and> completedAfterEpoch b)"
    by (auto simp: list_all_iff)
  then show "if compareTasks Completed a b \<le> 0 then completedOrder a b else completedOrder b a"
    by (rule completedOrder_agree)
next
  fix a b c assume "completedOrder a b" "completedOrder b c"
  then show "completedOrder a c" by (rule completedOrder_trans)
qed

section \<open>Properties of the grouping\<close>

lemma groupTasks_Nil: "groupTasks [] k = []"
  by (simp add: groupTasks_def)

lemma map_of_pushTask:
  "map_of (pushTask acc k t) k' =
     (if k' = k then Some (groupTasks acc k @ [t]) else map_of acc k')"
  by (induction acc k t rule: pushTask.induct) (auto simp: groupTasks_def)

lemma groupTasks_pushTask:
  "groupTasks (pushTask acc k t) k' =
     (if k' = k then groupTasks acc k @ [t] else groupTasks acc k')"
  by (simp add: groupTasks_def map_of_pushTask)

lemma keys_pushTask:
  "map fst (pushTask acc k t) =
     (if k \<in> set (map fst acc) then map fst acc else map fst acc @ [k])"
  by (induction acc k t rule: pushTask.induct) auto

lemma distinct_keys_pushTask:
  "distinct (map fst acc) \<Longrightarrow> distinct (map fst (pushTask acc k t))"
  by (simp add: keys_pushTask)

lemma groupTasks_foldl:
  "groupTasks (foldl (\<lambda>acc task. pushTask acc (key task) task) acc ts) k =
     groupTasks acc k @ filter (\<lambda>t. key t = k) ts"
  by (induction ts arbitrary: acc) (auto simp: groupTasks_pushTask)

lemma keyset_pushTask: "fst ` set (pushTask acc k t) = insert k (fst ` set acc)"
  using arg_cong[OF keys_pushTask[of acc k t], of set] by (auto split: if_splits)

lemma keys_foldl:
  "fst ` set (foldl (\<lambda>acc task. pushTask acc (key task) task) acc ts) =
     fst ` set acc \<union> key ` set ts"
  by (induction ts arbitrary: acc) (simp_all add: keyset_pushTask)

lemma distinct_keys_foldl:
  "distinct (map fst acc) \<Longrightarrow>
     distinct (map fst (foldl (\<lambda>acc task. pushTask acc (key task) task) acc ts))"
  by (induction ts arbitrary: acc) (simp_all add: distinct_keys_pushTask)

lemma groupTasks_groupedTasks:
  "groupTasks (groupedTasks format tab ts) k = filter (\<lambda>t. dateKeyOf format tab t = k) ts"
  by (simp add: groupedTasks_def groupTasks_foldl groupTasks_Nil)

lemma keys_groupedTasks:
  "fst ` set (groupedTasks format tab ts) = dateKeyOf format tab ` set ts"
  by (simp add: groupedTasks_def keys_foldl)

lemma distinct_keys_groupedTasks: "distinct (map fst (groupedTasks format tab ts))"
  by (simp add: groupedTasks_def distinct_keys_foldl)

lemma entry_groupedTasks:
  assumes "(k, g) \<in> set (groupedTasks format tab ts)"
  shows "g = filter (\<lambda>t. dateKeyOf format tab t = k) ts"
proof -
  from assms distinct_keys_groupedTasks[of format tab ts]
  have "map_of (groupedTasks format tab ts) k = Some g" by simp
  then have "groupTasks (groupedTasks format tab ts) k = g" by (simp add: groupTasks_def)
  then show ?thesis by (simp add: groupTasks_groupedTasks)
qed

lemma set_sortedGroupKeys:
  "set (sortedGroupKeys parse (groupedTasks format tab ts)) = dateKeyOf format tab ` set ts"
  by (simp add: sortedGroupKeys_def set_sortBy keys_groupedTasks)

lemma distinct_sortedGroupKeys:
  "distinct (sortedGroupKeys parse (groupedTasks format tab ts))"
  using distinct_keys_groupedTasks[of format tab ts]
    mset_sortBy[of "compareKeys parse" "map fst (groupedTasks format tab ts)"]
  unfolding sortedGroupKeys_def by (metis mset_eq_imp_distinct_iff)

lemma mset_concat_filter_keys:
  assumes "distinct ks"
  shows "mset (concat (map (\<lambda>k. filter (\<lambda>t. key t = k) ts) ks)) =
     mset (filter (\<lambda>t. key t \<in> set ks) ts)"
  using assms
proof (induction ks)
  case Nil
  then show ?case by simp
next
  case (Cons k ks)
  have "mset (filter (\<lambda>t. key t = k) ts) + mset (filter (\<lambda>t. key t \<in> set ks) ts) =
      mset (filter (\<lambda>t. key t \<in> set (k # ks)) ts)"
    using Cons.prems by (induction ts) auto
  with Cons show ?case by simp
qed

lemma partition_groups:
  "mset (concat (map (groupTasks (groupedTasks format tab ts))
      (sortedGroupKeys parse (groupedTasks format tab ts)))) = mset ts"
proof -
  let ?K = "sortedGroupKeys parse (groupedTasks format tab ts)"
  have "mset (concat (map (\<lambda>k. filter (\<lambda>t. dateKeyOf format tab t = k) ts) ?K)) =
     mset (filter (\<lambda>t. dateKeyOf format tab t \<in> set ?K) ts)"
    by (rule mset_concat_filter_keys[OF distinct_sortedGroupKeys])
  also have "filter (\<lambda>t. dateKeyOf format tab t \<in> set ?K) ts = ts"
    by (simp add: set_sortedGroupKeys)
  finally show ?thesis
    by (simp add: groupTasks_groupedTasks[abs_def])
qed

lemma keyOrder_agree:
  assumes "validKey parse a" "validKey parse b"
  shows "if compareKeys parse a b \<le> 0 then keyOrder parse a b else keyOrder parse b a"
  using assms
  by (auto simp: compareKeys_def keyOrder_def validKey_def split: option.splits)

lemma keyOrder_trans: "keyOrder parse a b \<Longrightarrow> keyOrder parse b c \<Longrightarrow> keyOrder parse a c"
  by (auto simp: keyOrder_def split: option.splits)

lemma sorted_sortedGroupKeys:
  assumes "list_all (validKey parse) (map fst grouped)"
  shows "sorted_wrt (keyOrder parse) (sortedGroupKeys parse grouped)"
  unfolding sortedGroupKeys_def
proof (rule sorted_wrt_sortBy)
  fix a b assume "a \<in> set (map fst grouped)" "b \<in> set (map fst grouped)"
  with assms have "validKey parse a" "validKey parse b"
    by (auto simp: list_all_iff)
  then show "if compareKeys parse a b \<le> 0 then keyOrder parse a b else keyOrder parse b a"
    by (rule keyOrder_agree)
next
  fix a b c assume "keyOrder parse a b" "keyOrder parse b c"
  then show "keyOrder parse a c" by (rule keyOrder_trans)
qed

lemma renderTaskList_sections:
  "renderTaskList format parse tab ts =
     map (\<lambda>k. (k, sortTasks tab (filter (\<lambda>t. dateKeyOf format tab t = k) ts)))
       (sortedGroupKeys parse (groupedTasks format tab ts))"
proof (cases ts)
  case Nil
  then show ?thesis
    by (simp add: renderTaskList_def groupedTasks_def sortedGroupKeys_def sortBy_def)
next
  case (Cons t ts')
  then show ?thesis
    by (simp add: renderTaskList_def Let_def groupTasks_groupedTasks)
qed

lemma keys_renderTaskList:
  "map fst (renderTaskList format parse tab ts) =
     sortedGroupKeys parse (groupedTasks format tab ts)"
  by (simp add: renderTaskList_sections comp_def)

lemma mset_sections:
  "mset (concat (map snd (renderTaskList format parse tab ts))) = mset ts"
proof -
  have "mset (concat (map snd (renderTaskList format parse tab ts))) =
      mset (concat (map (groupTasks (groupedTasks format tab ts))
        (sortedGroupKeys parse (groupedTasks format tab ts))))"
    by (simp add: renderTaskList_sections mset_concat comp_def sortTasks_mset
        groupTasks_groupedTasks[abs_def])
  then show ?thesis by (simp add: partition_groups)
qed

lemma section_tasks:
  assumes "(k, s) \<in> set (renderTaskList format parse tab ts)"
  shows "s = sortTasks tab (filter (\<lambda>t. dateKeyOf format tab t = k) ts)"
    and "k \<in> dateKeyOf format tab ` set ts"
  using assms set_sortedGroupKeys[of parse format tab ts]
  by (auto simp: renderTaskList_sections)

lemma set_sortTasks: "set (sortTasks tab g) = set g"
  by (simp add: sortTasks_def set_sortBy)

text \<open>The key that the reducer computes is the key of the grouping date.\<close>

lemma dateKeySource_groupingDate: "dateKeySource tab t = groupingDate tab t"
  by (cases tab) (simp_all add: dateKeySource_def)

lemma dateKeyOf_groupingKey: "dateKeyOf format tab t = groupingKey format tab t"
  by (simp add: dateKeyOf_def groupingKey_def dateKeySource_groupingDate)

lemma keys_groupedTasks_spec:
  "fst ` set (groupedTasks format tab ts) = groupingKey format tab ` set ts"
  by (simp add: keys_groupedTasks dateKeyOf_groupingKey[abs_def])

lemma set_sortedGroupKeys_spec:
  "set (sortedGroupKeys parse (groupedTasks format tab ts)) = groupingKey format tab ` set ts"
  by (simp add: set_sortedGroupKeys dateKeyOf_groupingKey[abs_def])

lemma section_tasks_spec:
  assumes "(k, s) \<in> set (renderTaskList format parse tab ts)"
  shows "s = sortTasks tab (filter (\<lambda>t. groupingKey format tab t = k) ts)"
    and "k \<in> groupingKey format tab ` set ts"
  using section_tasks[OF assms] by (simp_all add: dateKeyOf_groupingKey[abs_def])

lemma msPerDay_pos: "0 < msPerDay"
  by (simp add: msPerDay_def)

lemma calendarKeys_dated:
  assumes "calendarKeys day format parse tab ts" "t \<in> set ts" "groupingDate tab t = Some d"
  shows "format d \<noteq> noDate" "parse (format d) = Some (msPerDay * day d)"
    "\<And>t' d'. t' \<in> set ts \<Longrightarrow> groupingDate tab t' = Some d' \<Longrightarrow> day d' = day d \<Longrightarrow>
       format d' = format d"
proof -
  from assms(1) have "\<forall>t \<in> set ts.
       case groupingDate tab t of
         None \<Rightarrow> True
       | Some d \<Rightarrow>
           format d \<noteq> noDate \<and> parse (format d) = Some (msPerDay * day d) \<and>
           (\<forall>t' \<in> set ts.
             case groupingDate tab t' of
               None \<Rightarrow> True
             | Some d' \<Rightarrow> day d' = day d \<longrightarrow> format d' = format d)"
    by (simp only: calendarKeys_def list_all_iff)
  from bspec[OF this assms(2)] assms(3)
  have *: "format d \<noteq> noDate \<and> parse (format d) = Some (msPerDay * day d) \<and>
           (\<forall>t' \<in> set ts.
             case groupingDate tab t' of
               None \<Rightarrow> True
             | Some d' \<Rightarrow> day d' = day d \<longrightarrow> format d' = format d)"
    by simp
  from * show "format d \<noteq> noDate" by simp
  from * show "parse (format d) = Some (msPerDay * day d)" by simp
  fix t' d' assume "t' \<in> set ts" "groupingDate tab t' = Some d'" "day d' = day d"
  with * show "format d' = format d"
    using bspec[of "set ts" _ t'] by fastforce
qed

lemma keyDay_groupingKey:
  assumes "calendarKeys day format parse tab ts" "t \<in> set ts"
  shows "keyDay parse (groupingKey format tab t) = taskDay day tab t"
proof (cases "groupingDate tab t")
  case None
  then show ?thesis by (simp add: keyDay_def groupingKey_def taskDay_def)
next
  case (Some d)
  from calendarKeys_dated(1,2)[OF assms Some] Some msPerDay_pos show ?thesis
    by (simp add: keyDay_def groupingKey_def taskDay_def)
qed

lemma validKey_groupingKey:
  assumes "calendarKeys day format parse tab ts" "t \<in> set ts"
  shows "validKey parse (groupingKey format tab t)"
proof (cases "groupingDate tab t")
  case None
  then show ?thesis by (simp add: validKey_def groupingKey_def)
next
  case (Some d)
  from calendarKeys_dated(2)[OF assms Some] Some show ?thesis
    by (simp add: validKey_def groupingKey_def)
qed

lemma dayBefore_keys:
  assumes cal: "calendarKeys day format parse tab ts"
    and a: "a \<in> groupingKey format tab ` set ts" and b: "b \<in> groupingKey format tab ` set ts"
    and ord: "keyOrder parse a b" and ne: "a \<noteq> b"
  shows "dayBefore (keyDay parse a) (keyDay parse b)"
proof -
  from a obtain ta where ta: "ta \<in> set ts" "a = groupingKey format tab ta" by auto
  from b obtain tb where tb: "tb \<in> set ts" "b = groupingKey format tab tb" by auto
  from ord ne have an: "a \<noteq> noDate" by (auto simp: keyOrder_def)
  with ta obtain da where da: "groupingDate tab ta = Some da" "a = format da"
    by (auto simp: groupingKey_def split: option.splits)
  have ka: "keyDay parse a = Some (day da)"
    using keyDay_groupingKey[OF cal ta(1)] ta(2) da(1) by (simp add: taskDay_def)
  show ?thesis
  proof (cases "groupingDate tab tb")
    case None
    with tb have "b = noDate" by (simp add: groupingKey_def)
    with ka show ?thesis by (simp add: dayBefore_def keyDay_def)
  next
    case (Some db)
    with tb have bf: "b = format db" by (simp add: groupingKey_def)
    have kb: "keyDay parse b = Some (day db)"
      using keyDay_groupingKey[OF cal tb(1)] tb(2) Some by (simp add: taskDay_def)
    have bn: "b \<noteq> noDate" using calendarKeys_dated(1)[OF cal tb(1) Some] bf by simp
    from ord an bn calendarKeys_dated(2)[OF cal ta(1) da(1)] calendarKeys_dated(2)[OF cal tb(1) Some]
    have "msPerDay * day db \<le> msPerDay * day da"
      by (simp add: keyOrder_def da(2) bf)
    with msPerDay_pos have le: "day db \<le> day da" by simp
    have "day db \<noteq> day da"
    proof
      assume "day db = day da"
      from calendarKeys_dated(3)[OF cal ta(1) da(1) tb(1) Some this] ne da(2) bf
      show False by simp
    qed
    with le ka kb show ?thesis by (simp add: dayBefore_def)
  qed
qed

lemma sorted_wrt_distinct_strict:
  "sorted_wrt R xs \<Longrightarrow> distinct xs \<Longrightarrow> sorted_wrt (\<lambda>a b. R a b \<and> a \<noteq> b) xs"
  by (induction xs) auto

lemma sorted_days:
  assumes cal: "calendarKeys day format parse tab ts"
  shows "sorted_wrt (\<lambda>a b. dayBefore (keyDay parse a) (keyDay parse b))
     (sortedGroupKeys parse (groupedTasks format tab ts))"
proof -
  let ?K = "sortedGroupKeys parse (groupedTasks format tab ts)"
  have "list_all (validKey parse) (map fst (groupedTasks format tab ts))"
    using validKey_groupingKey[OF cal] keys_groupedTasks_spec[of format tab ts]
    by (auto simp: list_all_iff)
  then have "sorted_wrt (keyOrder parse) ?K" by (rule sorted_sortedGroupKeys)
  then have "sorted_wrt (\<lambda>a b. keyOrder parse a b \<and> a \<noteq> b) ?K"
    using distinct_sortedGroupKeys by (rule sorted_wrt_distinct_strict)
  then show ?thesis
  proof (rule sorted_wrt_mono_rel[rotated])
    fix a b assume "a \<in> set ?K" "b \<in> set ?K" "keyOrder parse a b \<and> a \<noteq> b"
    then show "dayBefore (keyDay parse a) (keyDay parse b)"
      using dayBefore_keys[OF cal, of a b] by (simp add: set_sortedGroupKeys_spec)
  qed
qed

lemma same_key_same_day:
  assumes cal: "calendarKeys day format parse tab ts" and a: "a \<in> set ts" and b: "b \<in> set ts"
  shows "(groupingKey format tab a = groupingKey format tab b)
     = (taskDay day tab a = taskDay day tab b)"
proof
  assume "groupingKey format tab a = groupingKey format tab b"
  with keyDay_groupingKey[OF cal a] keyDay_groupingKey[OF cal b]
  show "taskDay day tab a = taskDay day tab b" by simp
next
  assume d: "taskDay day tab a = taskDay day tab b"
  show "groupingKey format tab a = groupingKey format tab b"
  proof (cases "groupingDate tab a")
    case None
    with d have "groupingDate tab b = None" by (simp add: taskDay_def)
    with None show ?thesis by (simp add: groupingKey_def)
  next
    case (Some da)
    with d obtain db where db: "groupingDate tab b = Some db" "day db = day da"
      by (cases "groupingDate tab b") (simp_all add: taskDay_def)
    from calendarKeys_dated(3)[OF cal a Some b db] Some db(1) show ?thesis
      by (simp add: groupingKey_def)
  qed
qed

text \<open>
  Claim C4. The sections that the list renders for a filtered task set have pairwise
  distinct date keys; the section of a key holds exactly the tasks whose grouping date
  (completedAt in the completed tab, dueDate otherwise) has that key, the sentinel being
  the key of a missing date; the sections together hold every task exactly once.
  When every key other than the sentinel denotes a date, the keys are in order: the
  sentinel last, the others by their date descending. When the date library keys each
  date by its calendar day, the section of a key holds exactly the tasks whose grouping
  date falls on the day of the key (the tasks without that date for the sentinel), and
  the days of the sections are strictly descending, the undated section last.
\<close>

theorem grouping_partition_and_order:
  "distinct (map fst (renderTaskList format parse tab ts))
   \<and> fst ` set (renderTaskList format parse tab ts) = groupingKey format tab ` set ts
   \<and> (\<forall>(k, s) \<in> set (renderTaskList format parse tab ts).
        mset s = mset (filter (\<lambda>t. groupingKey format tab t = k) ts))
   \<and> mset (concat (map snd (renderTaskList format parse tab ts))) = mset ts
   \<and> (list_all (validKey parse) (map fst (renderTaskList format parse tab ts)) \<longrightarrow>
        sorted_wrt (keyOrder parse) (map fst (renderTaskList format parse tab ts)))
   \<and> (calendarKeys day format parse tab ts \<longrightarrow>
        (\<forall>(k, s) \<in> set (renderTaskList format parse tab ts).
           mset s = mset (filter (\<lambda>t. taskDay day tab t = keyDay parse k) ts))
        \<and> sorted_wrt dayBefore (map (keyDay parse \<circ> fst) (renderTaskList format parse tab ts)))"
proof (intro conjI impI)
  let ?S = "renderTaskList format parse tab ts"
  let ?K = "sortedGroupKeys parse (groupedTasks format tab ts)"
  have keys: "map fst ?S = ?K" by (rule keys_renderTaskList)
  show "distinct (map fst ?S)"
    by (simp only: keys distinct_sortedGroupKeys)
  show "fst ` set ?S = groupingKey format tab ` set ts"
    using arg_cong[OF keys, of set] by (simp add: set_sortedGroupKeys_spec)
  show "\<forall>(k, s) \<in> set ?S. mset s = mset (filter (\<lambda>t. groupingKey format tab t = k) ts)"
  proof (intro ballI, clarify)
    fix k s assume ks: "(k, s) \<in> set ?S"
    from section_tasks_spec(1)[OF ks]
    show "mset s = mset (filter (\<lambda>t. groupingKey format tab t = k) ts)"
      by (simp add: sortTasks_mset)
  qed
  show "mset (concat (map snd ?S)) = mset ts" by (rule mset_sections)
  show "sorted_wrt (keyOrder parse) (map fst ?S)" if "list_all (validKey parse) (map fst ?S)"
  proof -
    from that have "list_all (validKey parse) (map fst (groupedTasks format tab ts))"
      by (simp add: keys list_all_iff sortedGroupKeys_def set_sortBy)
    then show ?thesis unfolding keys by (rule sorted_sortedGroupKeys)
  qed
  show "\<forall>(k, s) \<in> set ?S. mset s = mset (filter (\<lambda>t. taskDay day tab t = keyDay parse k) ts)"
    if cal: "calendarKeys day format parse tab ts"
  proof (intro ballI, clarify)
    fix k s assume ks: "(k, s) \<in> set ?S"
    from section_tasks_spec(2)[OF ks] obtain t' where t': "t' \<in> set ts"
      and k: "k = groupingKey format tab t'" by blast
    have "filter (\<lambda>t. groupingKey format tab t = k) ts =
        filter (\<lambda>t. taskDay day tab t = keyDay parse k) ts"
    proof (rule filter_cong[OF refl])
      fix t assume t: "t \<in> set ts"
      show "(groupingKey format tab t = k) = (taskDay day tab t = keyDay parse k)"
        unfolding k keyDay_groupingKey[OF cal t']
        by (rule same_key_same_day[OF cal t t'])
    qed
    with section_tasks_spec(1)[OF ks]
    show "mset s = mset (filter (\<lambda>t. taskDay day tab t = keyDay parse k) ts)"
      by (simp add: sortTasks_mset)
  qed
  show "sorted_wrt dayBefore (map (keyDay parse \<circ> fst) ?S)"
    if cal: "calendarKeys day format parse tab ts"
  proof -
    have "map (keyDay parse \<circ> fst) ?S = map (keyDay parse) ?K"
      using keys by (metis map_map)
    with sorted_days[OF cal] show ?thesis by (simp add: sorted_wrt_map)
  qed
qed

lemma exampleMixedTasks_calendar:
  "calendarKeys utcDay exampleFormat exampleParse Completed exampleMixedTasks"
  "calendarKeys utcDay exampleFormat exampleParse Current exampleMixedTasks"
  by (simp_all add: calendarKeys_def exampleMixedTasks_def example_defs utcDay_def msPerDay_def)

lemma exampleMixedTasks_sections:
  "renderTaskList exampleFormat exampleParse Completed exampleMixedTasks =
     [(lit ''2024-05-31'', [exampleMixedTasks ! 1]),
      (lit ''2024-05-30'', [exampleMixedTasks ! 2, exampleMixedTasks ! 0])]"
  "renderTaskList exampleFormat exampleParse Current exampleMixedTasks =
     [(lit ''2024-06-03'', [exampleMixedTasks ! 0]),
      (lit ''2024-06-01'', [exampleMixedTasks ! 1]),
      (noDate, [exampleMixedTasks ! 2])]"
  by (simp_all add: renderTaskList_def groupedTasks_def sortedGroupKeys_def sortBy_def
      compareKeys_def groupTasks_def sortTasks_def compareTasks_def completedTime_def
      exampleMixedTasks_def example_defs)

theorem grouping_partition_and_order_witness:
  "calendarKeys utcDay exampleFormat exampleParse Completed exampleMixedTasks
   \<and> renderTaskList exampleFormat exampleParse Completed exampleMixedTasks =
       [(lit ''2024-05-31'', [exampleMixedTasks ! 1]),
        (lit ''2024-05-30'', [exampleMixedTasks ! 2, exampleMixedTasks ! 0])]
   \<and> sorted_wrt dayBefore
        (map (keyDay exampleParse \<circ> fst)
          (renderTaskList exampleFormat exampleParse Completed exampleMixedTasks))
   \<and> mset (concat (map snd (renderTaskList exampleFormat exampleParse Completed
         exampleMixedTasks))) = mset exampleMixedTasks
   \<and> calendarKeys utcDay exampleFormat exampleParse Current exampleMixedTasks
   \<and> renderTaskList exampleFormat exampleParse Current exampleMixedTasks =
       [(lit ''2024-06-03'', [exampleMixedTasks ! 0]),
        (lit ''2024-06-01'', [exampleMixedTasks ! 1]),
        (noDate, [exampleMixedTasks ! 2])]
   \<and> sorted_wrt dayBefore
        (map (keyDay exampleParse \<circ> fst)
          (renderTaskList exampleFormat exampleParse Current exampleMixedTasks))
   \<and> mset (concat (map snd (renderTaskList exampleFormat exampleParse Current
         exampleMixedTasks))) = mset exampleMixedTasks"
proof -
  note C = grouping_partition_and_order[of exampleFormat exampleParse Completed
      exampleMixedTasks utcDay]
  note D = grouping_partition_and_order[of exampleFormat exampleParse Current
      exampleMixedTasks utcDay]
  from C have c1: "mset (concat (map snd (renderTaskList exampleFormat exampleParse Completed
      exampleMixedTasks))) = mset exampleMixedTasks"
    by blast
  from C exampleMixedTasks_calendar(1) have c2: "sorted_wrt dayBefore
        (map (keyDay exampleParse \<circ> fst)
          (renderTaskList exampleFormat exampleParse Completed exampleMixedTasks))"
    by blast
  from D have d1: "mset (concat (map snd (renderTaskList exampleFormat exampleParse Current
      exampleMixedTasks))) = mset exampleMixedTasks"
    by blast
  from D exampleMixedTasks_calendar(2) have d2: "sorted_wrt dayBefore
        (map (keyDay exampleParse \<circ> fst)
          (renderTaskList exampleFormat exampleParse Current exampleMixedTasks))"
    by blast
  from exampleMixedTasks_calendar exampleMixedTasks_sections c1 c2 d1 d2 show ?thesis
    by blast
qed

section \<open>Properties of the order within a group\<close>

text \<open>
  Claim C5. Sorting keeps the tasks of a group. In a tab other than the completed one the
  sorted tasks are in the due order: tasks with a due date before tasks without, dated
  tasks by due date ascending, undated tasks by createdAt descending. In the completed tab
  the sorted tasks are in order of completedAt descending, a missing timestamp counting as
  the earliest, when every task has its timestamp or no timestamp is before the epoch.
  Every date group that the list renders for a tab is sorted so; in the completed tab
  every task of a rendered group has its completedAt.
\<close>

theorem within_group_order:
  "mset (sortTasks tab g) = mset g
   \<and> (tab \<noteq> Completed \<longrightarrow> sorted_wrt dueOrder (sortTasks tab g))
   \<and> (list_all hasCompletedAt g \<or> list_all completedAfterEpoch g \<longrightarrow>
        sorted_wrt completedOrder (sortTasks Completed g))
   \<and> ((k, s) \<in> set (renderTaskList format parse tab (filteredTasks isToday tab tasks)) \<longrightarrow>
        s = sortTasks tab
              (filter (\<lambda>t. dateKeyOf format tab t = k) (filteredTasks isToday tab tasks))
        \<and> (tab = Completed \<longrightarrow> list_all hasCompletedAt s \<and> sorted_wrt completedOrder s)
        \<and> (tab \<noteq> Completed \<longrightarrow> sorted_wrt dueOrder s))"
proof (intro conjI impI)
  show "mset (sortTasks tab g) = mset g" by (rule sortTasks_mset)
  show "sorted_wrt dueOrder (sortTasks tab g)" if "tab \<noteq> Completed"
    by (rule sortTasks_due[OF that])
  show "sorted_wrt completedOrder (sortTasks Completed g)"
    if "list_all hasCompletedAt g \<or> list_all completedAfterEpoch g"
    by (rule sortTasks_completed[OF that])
next
  let ?g = "filter (\<lambda>t. dateKeyOf format tab t = k) (filteredTasks isToday tab tasks)"
  assume ks: "(k, s) \<in> set (renderTaskList format parse tab (filteredTasks isToday tab tasks))"
  show s: "s = sortTasks tab ?g" by (rule section_tasks(1)[OF ks])
  have comp: "list_all hasCompletedAt ?g" if "tab = Completed"
    using that by (auto simp: list_all_iff filteredTasks_inTab hasCompletedAt_def
        split: option.splits)
  show "list_all hasCompletedAt s" if "tab = Completed"
    using comp[OF that] by (simp add: s list_all_iff set_sortTasks)
  show "sorted_wrt completedOrder s" if "tab = Completed"
    using sortTasks_completed[of ?g] comp[OF that] that by (simp add: s)
  show "sorted_wrt dueOrder s" if "tab \<noteq> Completed"
    unfolding s by (rule sortTasks_due[OF that])
qed

theorem within_group_order_witness:
  "(lit ''2024-05-30'', [exampleDoneTasks ! 2, exampleDoneTasks ! 0])
     \<in> set (renderTaskList exampleFormat exampleParse Completed
          (filteredTasks exampleIsToday Completed exampleDoneTasks))
   \<and> sorted_wrt completedOrder [exampleDoneTasks ! 2, exampleDoneTasks ! 0]
   \<and> (lit ''2024-06-03'', [exampleDueTasks ! 4, exampleDueTasks ! 1])
     \<in> set (renderTaskList exampleFormat exampleParse Current
          (filteredTasks exampleIsToday Current exampleDueTasks))
   \<and> sorted_wrt dueOrder [exampleDueTasks ! 4, exampleDueTasks ! 1]
   \<and> list_all completedAfterEpoch [undatedCompleted, exampleDoneTasks ! 0, exampleDoneTasks ! 1]
   \<and> sortTasks Completed [undatedCompleted, exampleDoneTasks ! 0, exampleDoneTasks ! 1]
       = [exampleDoneTasks ! 1, exampleDoneTasks ! 0, undatedCompleted]
   \<and> sorted_wrt completedOrder [exampleDoneTasks ! 1, exampleDoneTasks ! 0, undatedCompleted]"
proof -
  have d: "(lit ''2024-05-30'', [exampleDoneTasks ! 2, exampleDoneTasks ! 0])
     \<in> set (renderTaskList exampleFormat exampleParse Completed
          (filteredTasks exampleIsToday Completed exampleDoneTasks))"
    by (simp add: exampleDoneTasks_filtered exampleDoneTasks_sections)
  have "filteredTasks exampleIsToday Current exampleDueTasks = exampleDueTasks"
    by (simp add: filteredTasks_def example_defs)
  then have c: "(lit ''2024-06-03'', [exampleDueTasks ! 4, exampleDueTasks ! 1])
     \<in> set (renderTaskList exampleFormat exampleParse Current
          (filteredTasks exampleIsToday Current exampleDueTasks))"
    by (simp add: exampleDueTasks_sections)
  have e: "list_all completedAfterEpoch
      [undatedCompleted, exampleDoneTasks ! 0, exampleDoneTasks ! 1]"
    by (simp add: completedAfterEpoch_def undatedCompleted_def example_defs)
  have r: "sortTasks Completed [undatedCompleted, exampleDoneTasks ! 0, exampleDoneTasks ! 1]
       = [exampleDoneTasks ! 1, exampleDoneTasks ! 0, undatedCompleted]"
    by (simp add: sortTasks_def sortBy_def compareTasks_def completedTime_def
        undatedCompleted_def example_defs)
  from within_group_order[where tab = Completed and k = "lit ''2024-05-30''"
      and s = "[exampleDoneTasks ! 2, exampleDoneTasks ! 0]" and format = exampleFormat
      and parse = exampleParse and isToday = exampleIsToday and tasks = exampleDoneTasks] d
  have 1: "sorted_wrt completedOrder [exampleDoneTasks ! 2, exampleDoneTasks ! 0]"
    by blast
  from within_group_order[where tab = Current and k = "lit ''2024-06-03''"
      and s = "[exampleDueTasks ! 4, exampleDueTasks ! 1]" and format = exampleFormat
      and parse = exampleParse and isToday = exampleIsToday and tasks = exampleDueTasks] c
  have 2: "sorted_wrt dueOrder [exampleDueTasks ! 4, exampleDueTasks ! 1]"
    by blast
  from within_group_order[where
      g = "[undatedCompleted, exampleDoneTasks ! 0, exampleDoneTasks ! 1]"] e
  have "sorted_wrt completedOrder
      (sortTasks Completed [undatedCompleted, exampleDoneTasks ! 0, exampleDoneTasks ! 1])"
    by blast
  then have 3: "sorted_wrt completedOrder
      [exampleDoneTasks ! 1, exampleDoneTasks ! 0, undatedCompleted]"
    by (simp only: r)
  from d c e r 1 2 3 show ?thesis by blast
qed

section \<open>Properties of the report\<close>

subsection \<open>The two syntaxes of one content\<close>





lemma splitLines_Cons:
  "splitLines (c # cs) =
     (if c = 10 then [] # splitLines cs else (c # hd (splitLines cs)) # tl (splitLines cs))"
  by (simp add: splitLines_def)

lemma splitLines_not_Nil: "splitLines s \<noteq> []"
  by (cases s) (simp_all add: splitLines_def)

lemma separated_blank: "ls \<noteq> [] \<Longrightarrow> separated sep ([] # ls) = sep @ separated sep ls"
  by (cases ls) simp_all

lemma separated_first: "ls \<noteq> [] \<Longrightarrow> separated sep ((c # hd ls) # tl ls) = c # separated sep ls"
  by (cases ls) simp_all

lemma separated_lines:
  "separated sep (splitLines s) = concat (map (\<lambda>c. if c = 10 then sep else [c]) s)"
proof (induction s)
  case Nil
  show ?case by (simp add: splitLines_def)
next
  case (Cons c cs)
  then show ?case
    by (simp only: splitLines_Cons separated_blank[OF splitLines_not_Nil]
        separated_first[OF splitLines_not_Nil] list.map concat.simps split: if_split) simp
qed


lemma notes_lines: "separated [10] (splitLines s) = s"
  by (simp add: separated_lines) (induction s; simp)





subsection \<open>Reading a field, a numeral, a list\<close>











subsection \<open>Reading the HTML report\<close>











subsection \<open>Reading the plain-text report\<close>











subsection \<open>The renderings agree\<close>











section \<open>Properties of the file name\<close>

lemma hyphen_no_separator: "\<not> isSeparator 45"
  by (simp add: isSeparator_def)

lemma replaceSeparators_clean: "list_all (\<lambda>c. \<not> isSeparator c) (replaceSeparators s)"
  by (induction s rule: replaceSeparators.induct) (simp_all add: hyphen_no_separator)

lemma replaceSeparators_run:
  assumes "run \<noteq> []" "list_all isSeparator run"
    "case rest of [] \<Rightarrow> True | c # cs \<Rightarrow> \<not> isSeparator c"
  shows "replaceSeparators (run @ rest) = 45 # replaceSeparators rest"
proof -
  from assms(1) obtain c run' where run: "run = c # run'" by (cases run) auto
  have "dropWhile isSeparator rest = rest"
    using assms(3) by (cases rest) simp_all
  with assms(2) have "dropWhile isSeparator (run' @ rest) = rest"
    by (simp add: run dropWhile_append list_all_iff)
  with assms(2) show ?thesis by (simp add: run)
qed

text \<open>
  Claim C9. The PDF is saved as \<open>KEPH-Report-X.pdf\<close>. \<open>X\<close> is the date key
  when there is one (and it is not empty); otherwise it is the formatted date label in
  which every run of white space and commas is replaced by one hyphen and every other
  character is kept, so that no white space or comma is left.
\<close>

theorem pdf_file_name:
  "(k \<noteq> [] \<longrightarrow>
      pdfFileName (Some k) formattedDate = lit ''KEPH-Report-'' @ k @ lit ''.pdf'')
   \<and> pdfFileName (Some []) formattedDate = pdfFileName None formattedDate
   \<and> pdfFileName None formattedDate
       = lit ''KEPH-Report-'' @ replaceSeparators formattedDate @ lit ''.pdf''
   \<and> replaceSeparators [] = []
   \<and> (\<not> isSeparator c \<longrightarrow> replaceSeparators (c # cs) = c # replaceSeparators cs)
   \<and> (run \<noteq> [] \<and> list_all isSeparator run
        \<and> (case rest of [] \<Rightarrow> True | c # cs \<Rightarrow> \<not> isSeparator c) \<longrightarrow>
      replaceSeparators (run @ rest) = 45 # replaceSeparators rest)
   \<and> list_all (\<lambda>c. \<not> isSeparator c) (replaceSeparators formattedDate)"
  using replaceSeparators_run[of run rest] replaceSeparators_clean[of formattedDate]
  by (simp add: pdfFileName_def truthy_def)

theorem pdf_file_name_witness:
  "pdfFileName (Some (lit ''2024-06-01'')) (lit ''June 1, 2024'')
     = lit ''KEPH-Report-2024-06-01.pdf''
   \<and> pdfFileName None (lit ''June 1, 2024'') = lit ''KEPH-Report-June-1-2024.pdf''
   \<and> replaceSeparators (lit '', 2024'') = lit ''-2024''"
proof -
  have ne: "lit ''2024-06-01'' \<noteq> []" by (simp add: lit_def)
  have run: "lit '', '' \<noteq> [] \<and> list_all isSeparator (lit '', '')
      \<and> (case lit ''2024'' of [] \<Rightarrow> True | c # cs \<Rightarrow> \<not> isSeparator c)"
    by (simp add: lit_def isSeparator_def)
  have r: "replaceSeparators (lit ''June 1, 2024'') = lit ''June-1-2024''"
    "replaceSeparators (lit ''2024'') = lit ''2024''"
    by (simp_all add: lit_def isSeparator_def)
  from pdf_file_name[of "lit ''2024-06-01''" "lit ''June 1, 2024''" _ _ "lit '', ''" "lit ''2024''"]
    ne run r
  show ?thesis by (simp add: lit_def)
qed

end
